theory Spec2Isabelle
  imports Main "HOL-Library.Word"
begin

unbundle bit_operations_syntax

section \<open>RelayDNS: a forwarding DNS proxy\<close>

text \<open>
  A shallow embedding of the request pipeline of RelayDNS (Server.cpp, Packet.cpp,
  Request.h, Server.h). Every handler of the source is a function on an explicit
  \<open>Server\<close> state; the clock value a handler reads and the result of a \<open>sendto\<close> are
  arguments; the datagrams a handler sends are returned as a list of effects. An access
  that the C++ leaves undefined (an index outside \<open>mOutboxArray\<close>, a \<open>memcpy\<close> beyond a
  raw packet, \<open>front()\<close> of an empty queue) is a value of type \<open>fault\<close>.
\<close>

subsection \<open>Constants of Server.h\<close>

definition SERVER_MAX_PACKET_SIZE :: nat where
  "SERVER_MAX_PACKET_SIZE = 512"

definition SERVER_TIMEOUT_MS :: int where
  "SERVER_TIMEOUT_MS = 2000"

definition SERVER_VERBOSE :: bool where
  "SERVER_VERBOSE = True"

definition USHRT_MAX :: nat where
  "USHRT_MAX = 65535"

definition SERVER_BUFFER_SIZE :: nat where
  "SERVER_BUFFER_SIZE = 4096"

subsection \<open>Bytes, addresses, faults\<close>

type_synonym byte = "8 word"

record sockaddr_in =
  sin_addr :: "32 word"
  sin_port :: "16 word"

datatype fault =
    ArrayIndexOutOfBounds nat
  | BufferOverrun
  | FrontOfEmptyQueue

text \<open>\<open>ntohs\<close> of the two bytes a \<open>memcpy\<close> took from the wire, and the bytes \<open>htons\<close>
  leaves for the wire: network byte order is big-endian whatever the host is.\<close>

definition ntohs_bytes :: "byte \<Rightarrow> byte \<Rightarrow> 16 word" where
  "ntohs_bytes b0 b1 = push_bit 8 (ucast b0) OR ucast b1"

definition htons_bytes :: "16 word \<Rightarrow> byte list" where
  "htons_bytes w = [ucast (drop_bit 8 w), ucast w]"

text \<open>A \<open>char\<close> of a \<open>std::string\<close> and the byte it is.\<close>

definition char_of_byte :: "byte \<Rightarrow> char" where
  "char_of_byte b = char_of (unat b)"

definition byte_of_char :: "char \<Rightarrow> byte" where
  "byte_of_char c = of_char c"

text \<open>\<open>memcpy(dst + off, src, n)\<close> into a buffer of known size.\<close>

definition memcpy_to :: "byte list \<Rightarrow> nat \<Rightarrow> byte list \<Rightarrow> fault + byte list" where
  "memcpy_to buf off src =
     (if off + length src \<le> length buf
      then Inr (take off buf @ src @ drop (off + length src) buf)
      else Inl BufferOverrun)"

subsection \<open>Packet.cpp: the packet codec\<close>

text \<open>Modelled from the spec: the layout of \<open>DNS_HEADER\<close> and \<open>DNS_QUESTION\<close>, which
  Packet.h declares and which is not among the sources. The header is 12 bytes: the id,
  then the flags \<open>qr | opcode(4) | aa | tc | rd | ra | z(3) | rcode(4)\<close>, then four
  16-bit counts; the question is QTYPE and QCLASS, 16 bits each. The field the source
  calls \<open>resp\<close> is the qr bit.\<close>

record DNS_HEADER =
  id_hdr :: "16 word"
  resp :: bool
  opcode :: byte
  aa :: bool
  tc :: bool
  rd :: bool
  ra :: bool
  z :: byte
  rcode :: byte
  qdcount :: "16 word"
  ancount :: "16 word"
  nscount :: "16 word"
  arcount :: "16 word"

record DNS_QUESTION =
  qtype :: "16 word"
  qclass :: "16 word"

definition header_of_bytes :: "byte list \<Rightarrow> DNS_HEADER" where
  "header_of_bytes bs =
     \<lparr> id_hdr = ntohs_bytes (bs ! 0) (bs ! 1),
       resp = bit (bs ! 2) 7,
       opcode = drop_bit 3 (bs ! 2) AND 15,
       aa = bit (bs ! 2) 2,
       tc = bit (bs ! 2) 1,
       rd = bit (bs ! 2) 0,
       ra = bit (bs ! 3) 7,
       z = drop_bit 4 (bs ! 3) AND 7,
       rcode = (bs ! 3) AND 15,
       qdcount = ntohs_bytes (bs ! 4) (bs ! 5),
       ancount = ntohs_bytes (bs ! 6) (bs ! 7),
       nscount = ntohs_bytes (bs ! 8) (bs ! 9),
       arcount = ntohs_bytes (bs ! 10) (bs ! 11) \<rparr>"

definition question_of_bytes :: "byte list \<Rightarrow> DNS_QUESTION" where
  "question_of_bytes bs =
     \<lparr> qtype = ntohs_bytes (bs ! 0) (bs ! 1), qclass = ntohs_bytes (bs ! 2) (bs ! 3) \<rparr>"

text \<open>\<open>mRawPacketData\<close> is a pointer: \<open>None\<close> is \<open>nullptr\<close>, \<open>Some bs\<close> the
  \<open>mRawPacketLen\<close> bytes it points to.\<close>

record DNSPacket =
  mRawPacketData :: "byte list option"
  mHeader :: DNS_HEADER
  mQuestionName :: string
  mQuestion :: DNS_QUESTION

text \<open>The loop of \<open>DecodeAddrStr\<close>. The result is the return code, the bytes left
  (\<open>ioData\<close>, \<open>ioDataLen\<close>) and \<open>outString\<close>, which the source also changes when it
  fails.\<close>

function DecodeAddrStr_loop :: "nat \<Rightarrow> byte list \<Rightarrow> string \<Rightarrow> int \<times> byte list \<times> string" where
  "DecodeAddrStr_loop sectionLen ioData outString =
     (if sectionLen = 0 then (0, ioData, outString)
      else if length ioData < sectionLen then (-1, ioData, outString)
      else
        let outString1 = outString @ map char_of_byte (take sectionLen ioData);
            ioData1 = drop sectionLen ioData
        in if length ioData1 < 1 then (-1, ioData1, outString1)
           else
             let sectionLen' = unat (hd ioData1);
                 ioData2 = tl ioData1;
                 outString2 = (if sectionLen' \<noteq> 0 then outString1 @ ''.'' else outString1)
             in DecodeAddrStr_loop sectionLen' ioData2 outString2)"
  by pat_completeness auto
termination
  by (relation "measure (\<lambda>(sectionLen, ioData, outString). length ioData)") auto

declare DecodeAddrStr_loop.simps [simp del]

definition DecodeAddrStr :: "byte list \<Rightarrow> string \<Rightarrow> int \<times> byte list \<times> string" where
  "DecodeAddrStr ioData outString =
     (if length ioData < 1 then (-1, ioData, outString)
      else DecodeAddrStr_loop (unat (hd ioData)) (tl ioData) [])"

definition Decode :: "DNSPacket \<Rightarrow> int \<times> DNSPacket" where
  "Decode p =
     (case mRawPacketData p of
        None \<Rightarrow> (-1, p)
      | Some raw \<Rightarrow>
          if length raw < 12 then (-1, p)
          else
            let p1 = p\<lparr>mHeader := header_of_bytes (take 12 raw)\<rparr>;
                (rc, inData, name) = DecodeAddrStr (drop 12 raw) (mQuestionName p1);
                p2 = p1\<lparr>mQuestionName := name\<rparr>
            in if rc \<noteq> 0 then (-1, p2)
               else if length inData < 4 then (-1, p2)
               else (0, p2\<lparr>mQuestion := question_of_bytes (take 4 inData)\<rparr>))"

text \<open>\<open>std::string::find(c, pos)\<close>: the first index at or after \<open>pos\<close> holding \<open>c\<close>.\<close>

definition string_find :: "string \<Rightarrow> char \<Rightarrow> nat \<Rightarrow> nat option" where
  "string_find s c pos =
     (if c \<in> set (drop pos s)
      then Some (pos + length (takeWhile (\<lambda>x. x \<noteq> c) (drop pos s)))
      else None)"

text \<open>The output side of \<open>EncodeAddrStr\<close>: the buffer, the offset of \<open>ioData\<close> in it,
  \<open>ioDataLen\<close> and \<open>ioRemainsLen\<close>.\<close>

record enc_state =
  buf :: "byte list"
  ioData :: nat
  ioDataLen :: nat
  ioRemainsLen :: nat

text \<open>One section: the length byte, \<open>++ioData\<close>, the \<open>memcpy\<close> of the section, and the
  two counters. The source does not move \<open>ioData\<close> past the copied section.\<close>

definition encode_section :: "enc_state \<Rightarrow> string \<Rightarrow> nat \<Rightarrow> nat \<Rightarrow> fault + enc_state" where
  "encode_section e inString sectionStart sectionLen =
     (case memcpy_to (buf e) (ioData e) [of_nat sectionLen] of
        Inl f \<Rightarrow> Inl f
      | Inr buf1 \<Rightarrow>
          (case memcpy_to buf1 (ioData e + 1)
                  (map byte_of_char (take sectionLen (drop sectionStart inString))) of
             Inl f \<Rightarrow> Inl f
           | Inr buf2 \<Rightarrow>
               Inr (e\<lparr> buf := buf2, ioData := ioData e + 1,
                       ioDataLen := ioDataLen e + 1 + sectionLen,
                       ioRemainsLen := ioRemainsLen e - 1 - sectionLen \<rparr>)))"

function EncodeAddrStr_loop :: "enc_state \<Rightarrow> string \<Rightarrow> nat \<Rightarrow> fault + (int \<times> enc_state)" where
  "EncodeAddrStr_loop e inString sectionStart =
     (case string_find inString CHR ''.'' sectionStart of
        Some sectionEnd \<Rightarrow>
          (let sectionLen = sectionEnd - sectionStart
           in if ioRemainsLen e < 1 + sectionLen then Inr (-1, e)
              else (case encode_section e inString sectionStart sectionLen of
                      Inl f \<Rightarrow> Inl f
                    | Inr e1 \<Rightarrow> EncodeAddrStr_loop e1 inString (sectionEnd + 1)))
      | None \<Rightarrow>
          (let sectionLen = length inString - sectionStart
           in if ioRemainsLen e < 2 + sectionLen then Inr (-1, e)
              else (case encode_section e inString sectionStart sectionLen of
                      Inl f \<Rightarrow> Inl f
                    | Inr e1 \<Rightarrow>
                        (case memcpy_to (buf e1) (ioData e1) [0] of
                           Inl f \<Rightarrow> Inl f
                         | Inr buf2 \<Rightarrow>
                             Inr (0, e1\<lparr> buf := buf2, ioData := ioData e1 + 1,
                                         ioDataLen := ioDataLen e1 + 1,
                                         ioRemainsLen := ioRemainsLen e1 - 1 \<rparr>)))))"
  by pat_completeness auto
termination
proof (relation "measure (\<lambda>(e, inString, sectionStart). length inString - sectionStart)")
  show "wf (measure (\<lambda>(e, inString, sectionStart). length inString - sectionStart))"
    by simp
next
  fix e :: enc_state and inString sectionStart sectionEnd sectionLen e1
  assume "string_find inString CHR ''.'' sectionStart = Some sectionEnd"
  then have mem: "CHR ''.'' \<in> set (drop sectionStart inString)"
    and se: "sectionEnd = sectionStart + length (takeWhile (\<lambda>x. x \<noteq> CHR ''.'') (drop sectionStart inString))"
    by (auto simp: string_find_def split: if_splits)
  have tw: "CHR ''.'' \<in> set xs \<Longrightarrow> length (takeWhile (\<lambda>x. x \<noteq> CHR ''.'') xs) < length xs"
    for xs :: string
    by (induction xs) auto
  from mem have "length (takeWhile (\<lambda>x. x \<noteq> CHR ''.'') (drop sectionStart inString))
             < length (drop sectionStart inString)"
    by (rule tw)
  with se have "sectionEnd < length inString" by simp
  moreover from se have "sectionStart \<le> sectionEnd" by simp
  ultimately show "((e1, inString, sectionEnd + 1), e, inString, sectionStart)
        \<in> measure (\<lambda>(e, inString, sectionStart). length inString - sectionStart)"
    by simp
qed

declare EncodeAddrStr_loop.simps [simp del]

definition EncodeAddrStr :: "enc_state \<Rightarrow> string \<Rightarrow> fault + (int \<times> enc_state)" where
  "EncodeAddrStr e inString = EncodeAddrStr_loop e inString 0"

text \<open>\<open>SetRawData\<close> copies \<open>inLen\<close> bytes into a fresh allocation.\<close>

definition SetRawData :: "DNSPacket \<Rightarrow> byte list \<Rightarrow> DNSPacket" where
  "SetRawData p inData = p\<lparr>mRawPacketData := Some inData\<rparr>"

text \<open>\<open>SetRawPacketID\<close> and \<open>GetRawPacketID\<close> check the pointer only, then copy two
  bytes: on a packet shorter than two bytes the copy leaves the allocation.\<close>

definition SetRawPacketID :: "DNSPacket \<Rightarrow> 16 word \<Rightarrow> fault + (int \<times> DNSPacket)" where
  "SetRawPacketID p inID =
     (case mRawPacketData p of
        None \<Rightarrow> Inr (-1, p)
      | Some raw \<Rightarrow>
          (case memcpy_to raw 0 (htons_bytes inID) of
             Inl f \<Rightarrow> Inl f
           | Inr raw' \<Rightarrow> Inr (0, p\<lparr>mRawPacketData := Some raw'\<rparr>)))"

definition GetRawPacketID :: "DNSPacket \<Rightarrow> fault + (int \<times> 16 word)" where
  "GetRawPacketID p =
     (case mRawPacketData p of
        None \<Rightarrow> Inr (-1, 0)
      | Some raw \<Rightarrow>
          if 2 \<le> length raw then Inr (0, ntohs_bytes (raw ! 0) (raw ! 1))
          else Inl BufferOverrun)"

definition raw_bytes :: "DNSPacket \<Rightarrow> byte list" where
  "raw_bytes p = (case mRawPacketData p of None \<Rightarrow> [] | Some bs \<Rightarrow> bs)"

subsection \<open>Request.h and the state of Server.h\<close>

text \<open>A \<open>time_point\<close> of the clock, in nanoseconds. \<open>duration_cast<milliseconds>\<close>
  truncates towards zero.\<close>

type_synonym time_point = int

definition elapsed_ms :: "time_point \<Rightarrow> time_point \<Rightarrow> int" where
  "elapsed_ms rightNow forwarded =
     sgn (rightNow - forwarded) * (\<bar>rightNow - forwarded\<bar> div 1000000)"

record Request =
  mPacket :: DNSPacket
  mClientAddr :: sockaddr_in
  mClientPacketID :: "16 word"
  mOurPacketID :: "16 word"
  mDomainName :: string
  mForwardedTime :: time_point

text \<open>The fields of \<open>Server\<close> that the pipeline reads or writes. \<open>mOutboxArray\<close> is
  \<open>array<unique_ptr<Request>, USHRT_MAX>\<close>: slot \<open>i\<close> exists for \<open>i < USHRT_MAX\<close>, and
  \<open>None\<close> is a null \<open>unique_ptr\<close>. The elements of \<open>mInboxQueue\<close> are \<open>unique_ptr\<close>s
  too. A semaphore is its count; the statistics are \<open>atomic_int\<close>s, which wrap.\<close>

record Server =
  mFwdSocketAddr :: sockaddr_in
  mGenIDCounter :: "16 word"
  mInboxQueue :: "Request option list"
  mInboxQueueSemaphore :: nat
  mOutboxArray :: "nat \<Rightarrow> Request option"
  mOutboxQueue :: "16 word list"
  mOutboxSemaphore :: nat
  mStatsPacketsIn :: "32 word"
  mStatsPacketsOut :: "32 word"
  mStatsRequests :: "32 word"
  mStatsServed :: "32 word"
  mStatsTimeOuts :: "32 word"

text \<open>The server after its constructor and the set-up of \<open>RunServer\<close>, which resolves
  the forward address; the counters start at zero.\<close>

definition Server_new :: "sockaddr_in \<Rightarrow> Server" where
  "Server_new fwd =
     \<lparr> mFwdSocketAddr = fwd, mGenIDCounter = 0, mInboxQueue = [], mInboxQueueSemaphore = 0,
       mOutboxArray = (\<lambda>i. None), mOutboxQueue = [], mOutboxSemaphore = 0,
       mStatsPacketsIn = 0, mStatsPacketsOut = 0, mStatsRequests = 0, mStatsServed = 0,
       mStatsTimeOuts = 0 \<rparr>"

datatype socket = ServerSocket | FwdSocket

datatype effect = SendTo socket sockaddr_in "byte list"

subsection \<open>Server.cpp: queue, id generator, outbox\<close>

definition InboxQueuePushBack :: "Request option \<Rightarrow> Server \<Rightarrow> int \<times> Server" where
  "InboxQueuePushBack inReq s =
     (0, s\<lparr> mInboxQueue := mInboxQueue s @ [inReq],
            mStatsPacketsIn := mStatsPacketsIn s + 1,
            mInboxQueueSemaphore := mInboxQueueSemaphore s + 1 \<rparr>)"

definition InboxQueuePopFront :: "Server \<Rightarrow> fault + (Request option \<times> Server)" where
  "InboxQueuePopFront s =
     (case mInboxQueue s of
        [] \<Rightarrow> Inl FrontOfEmptyQueue
      | front # rest \<Rightarrow>
          (case front of
             None \<Rightarrow> Inr (None, s)
           | Some outReq \<Rightarrow> Inr (Some outReq, s\<lparr>mInboxQueue := rest\<rparr>)))"

definition GenerateUniqueID :: "Server \<Rightarrow> 16 word \<times> Server" where
  "GenerateUniqueID s =
     (let c = mGenIDCounter s + 1;
          c' = (if unat c = USHRT_MAX then 1 else c)
      in (c', s\<lparr>mGenIDCounter := c'\<rparr>))"

text \<open>The ids that \<open>n\<close> successive calls return.\<close>

fun GenerateUniqueID_calls :: "nat \<Rightarrow> Server \<Rightarrow> 16 word list" where
  "GenerateUniqueID_calls 0 s = []"
| "GenerateUniqueID_calls (Suc n) s =
     fst (GenerateUniqueID s) # GenerateUniqueID_calls n (snd (GenerateUniqueID s))"

definition OutboxAdd :: "Request \<Rightarrow> time_point \<Rightarrow> Server \<Rightarrow> fault + (int \<times> Server)" where
  "OutboxAdd inReq now s =
     (let req = inReq\<lparr>mForwardedTime := now\<rparr>;
          i = unat (mOurPacketID req)
      in if i < USHRT_MAX
         then Inr (0, s\<lparr> mOutboxQueue := mOutboxQueue s @ [mOurPacketID req],
                         mOutboxArray := (mOutboxArray s)(i := Some req),
                         mOutboxSemaphore := mOutboxSemaphore s + 1 \<rparr>)
         else Inl (ArrayIndexOutOfBounds i))"

definition OutboxRemove :: "16 word \<Rightarrow> Server \<Rightarrow> fault + (Request option \<times> Server)" where
  "OutboxRemove inID s =
     (let i = unat inID
      in if i < USHRT_MAX
         then (case mOutboxArray s i of
                 None \<Rightarrow> Inr (None, s)
               | Some outReq \<Rightarrow> Inr (Some outReq, s\<lparr>mOutboxArray := (mOutboxArray s)(i := None)\<rparr>))
         else Inl (ArrayIndexOutOfBounds i))"

text \<open>The loop of \<open>OutboxTimeout\<close> on the three things it changes: the queue, the
  array and \<open>mStatsTimeOuts\<close>.\<close>

fun OutboxTimeout_loop ::
  "time_point \<Rightarrow> 16 word list \<Rightarrow> (nat \<Rightarrow> Request option) \<Rightarrow> 32 word
     \<Rightarrow> fault + (16 word list \<times> (nat \<Rightarrow> Request option) \<times> 32 word)" where
  "OutboxTimeout_loop rightNow [] arr timeOuts = Inr ([], arr, timeOuts)"
| "OutboxTimeout_loop rightNow (oldestReqID # q) arr timeOuts =
     (if unat oldestReqID < USHRT_MAX
      then (case arr (unat oldestReqID) of
              None \<Rightarrow> OutboxTimeout_loop rightNow q arr timeOuts
            | Some oldestReq \<Rightarrow>
                if elapsed_ms rightNow (mForwardedTime oldestReq) < SERVER_TIMEOUT_MS
                then Inr (oldestReqID # q, arr, timeOuts)
                else OutboxTimeout_loop rightNow q (arr(unat oldestReqID := None)) (timeOuts + 1))
      else Inl (ArrayIndexOutOfBounds (unat oldestReqID)))"

text \<open>\<open>OutboxTimeout\<close> is \<open>void\<close>: all it gives back is the state.\<close>

definition OutboxTimeout :: "time_point \<Rightarrow> Server \<Rightarrow> fault + (unit \<times> Server)" where
  "OutboxTimeout rightNow s =
     (case OutboxTimeout_loop rightNow (mOutboxQueue s) (mOutboxArray s) (mStatsTimeOuts s) of
        Inl f \<Rightarrow> Inl f
      | Inr (q, arr, timeOuts) \<Rightarrow>
          Inr ((), s\<lparr>mOutboxQueue := q, mOutboxArray := arr, mStatsTimeOuts := timeOuts\<rparr>))"

subsection \<open>Server.cpp: the worker threads\<close>

text \<open>The default-constructed \<open>DNSPacket\<close> of a handler is an argument \<open>packet\<close>:
  its constructor is in Packet.h.\<close>

definition ServerThreadInbox_HandlePacket ::
  "DNSPacket \<Rightarrow> byte list \<Rightarrow> sockaddr_in \<Rightarrow> Server \<Rightarrow> int \<times> Server" where
  "ServerThreadInbox_HandlePacket packet inData inFrom s =
     (if length inData > SERVER_MAX_PACKET_SIZE then (0, s)
      else
        let newReq = \<lparr> mPacket = SetRawData packet inData, mClientAddr = inFrom,
                       mClientPacketID = 0, mOurPacketID = 0, mDomainName = [],
                       mForwardedTime = 0 \<rparr>
        in (0, snd (InboxQueuePushBack (Some newReq) s)))"

definition ServerThreadProcess_HandleRequest ::
  "Request \<Rightarrow> time_point \<Rightarrow> bool \<Rightarrow> Server \<Rightarrow> fault + (int \<times> effect list \<times> Server)" where
  "ServerThreadProcess_HandleRequest inReq now sendOk s =
     (let (rc, pkt) = Decode (mPacket inReq)
      in if rc \<noteq> 0 then Inr (-1, [], s)
         else if resp (mHeader pkt) then Inr (-1, [], s)
         else
           let req1 = inReq\<lparr>mPacket := pkt, mDomainName := mQuestionName pkt\<rparr>;
               s1 = s\<lparr>mStatsRequests := mStatsRequests s + 1\<rparr>;
               (ourPacketId, s2) = GenerateUniqueID s1
           in (case GetRawPacketID (mPacket req1) of
                 Inl f \<Rightarrow> Inl f
               | Inr (rcGet, clientPacketId) \<Rightarrow>
                   if rcGet \<noteq> 0 then Inr (-1, [], s2)
                   else (case SetRawPacketID (mPacket req1) ourPacketId of
                           Inl f \<Rightarrow> Inl f
                         | Inr (rcSet, pkt') \<Rightarrow>
                             if rcSet \<noteq> 0 then Inr (-1, [], s2)
                             else
                               let req2 = req1\<lparr> mPacket := pkt',
                                                mClientPacketID := clientPacketId,
                                                mOurPacketID := ourPacketId \<rparr>
                               in (case OutboxAdd req2 now s2 of
                                     Inl f \<Rightarrow> Inl f
                                   | Inr (rcAdd, s3) \<Rightarrow>
                                       let s4 = s3\<lparr>mStatsPacketsOut := mStatsPacketsOut s3 + 1\<rparr>
                                       in if sendOk
                                          then Inr (0, [SendTo FwdSocket (mFwdSocketAddr s4) (raw_bytes pkt')], s4)
                                          else Inr (-1, [], s4)))))"

definition ServerThreadOutbox_HandlePacket ::
  "DNSPacket \<Rightarrow> byte list \<Rightarrow> sockaddr_in \<Rightarrow> time_point \<Rightarrow> bool \<Rightarrow> Server
     \<Rightarrow> fault + (int \<times> effect list \<times> Server)" where
  "ServerThreadOutbox_HandlePacket packet inData inFrom rightNow sendOk s =
     (if length inData > SERVER_MAX_PACKET_SIZE then Inr (0, [], s)
      else if sin_addr (mFwdSocketAddr s) \<noteq> sin_addr inFrom
              \<or> sin_port (mFwdSocketAddr s) \<noteq> sin_port inFrom then Inr (-1, [], s)
      else
        let packet1 = SetRawData packet inData
        in (case GetRawPacketID packet1 of
              Inl f \<Rightarrow> Inl f
            | Inr (rcGet, ourID) \<Rightarrow>
                if rcGet \<noteq> 0 then Inr (-1, [], s)
                else
                  let packet2 = snd (Decode packet1)
                  in if \<not> resp (mHeader packet2) then Inr (-1, [], s)
                     else
                       let s1 = s\<lparr>mStatsPacketsIn := mStatsPacketsIn s + 1\<rparr>
                       in (case OutboxRemove ourID s1 of
                             Inl f \<Rightarrow> Inl f
                           | Inr (None, s2) \<Rightarrow> Inr (0, [], s2)
                           | Inr (Some thisReq, s2) \<Rightarrow>
                               if elapsed_ms rightNow (mForwardedTime thisReq) \<ge> SERVER_TIMEOUT_MS
                               then Inr (0, [],
                                         if SERVER_VERBOSE
                                         then s2\<lparr>mStatsTimeOuts := mStatsTimeOuts s2 + 1\<rparr>
                                         else s2)
                               else
                                 let s3 = s2\<lparr> mStatsServed := mStatsServed s2 + 1,
                                              mStatsPacketsOut := mStatsPacketsOut s2 + 1 \<rparr>
                                 in (case SetRawPacketID packet2 (mClientPacketID thisReq) of
                                       Inl f \<Rightarrow> Inl f
                                     | Inr (rcSet, packet3) \<Rightarrow>
                                         Inr (0,
                                              if sendOk
                                              then [SendTo ServerSocket (mClientAddr thisReq) (raw_bytes packet3)]
                                              else [],
                                              s3)))))"

text \<open>One turn of the loop of each \<open>ThreadMain\<close>. \<open>recvfrom\<close> fills a buffer of
  \<open>SERVER_BUFFER_SIZE\<close> bytes; \<open>sem_wait\<close> blocks while the count is zero, which is a
  turn that changes nothing.\<close>

definition ServerThreadInbox_ThreadMain ::
  "DNSPacket \<Rightarrow> byte list \<Rightarrow> sockaddr_in \<Rightarrow> Server \<Rightarrow> Server" where
  "ServerThreadInbox_ThreadMain packet datagram recvAddress s =
     (let buffer = take SERVER_BUFFER_SIZE datagram
      in if length buffer \<le> 0 then s
         else snd (ServerThreadInbox_HandlePacket packet buffer recvAddress s))"

definition ServerThreadProcess_ThreadMain ::
  "time_point \<Rightarrow> bool \<Rightarrow> Server \<Rightarrow> fault + (effect list \<times> Server)" where
  "ServerThreadProcess_ThreadMain now sendOk s =
     (if mInboxQueueSemaphore s = 0 then Inr ([], s)
      else
        (case InboxQueuePopFront (s\<lparr>mInboxQueueSemaphore := mInboxQueueSemaphore s - 1\<rparr>) of
           Inl f \<Rightarrow> Inl f
         | Inr (None, s1) \<Rightarrow> Inr ([], s1)
         | Inr (Some req, s1) \<Rightarrow>
             (case ServerThreadProcess_HandleRequest req now sendOk s1 of
                Inl f \<Rightarrow> Inl f
              | Inr (rc, out, s2) \<Rightarrow> Inr (out, s2))))"

definition ServerThreadOutbox_ThreadMain ::
  "DNSPacket \<Rightarrow> byte list \<Rightarrow> sockaddr_in \<Rightarrow> time_point \<Rightarrow> bool \<Rightarrow> Server
     \<Rightarrow> fault + (effect list \<times> Server)" where
  "ServerThreadOutbox_ThreadMain packet datagram recvAddress rightNow sendOk s =
     (case ServerThreadOutbox_HandlePacket packet (take SERVER_BUFFER_SIZE datagram)
             recvAddress rightNow sendOk s of
        Inl f \<Rightarrow> Inl f
      | Inr (rc, out, s1) \<Rightarrow> Inr (out, s1))"

definition ServerThreadMaintainence_ThreadMain ::
  "time_point \<Rightarrow> Server \<Rightarrow> fault + (effect list \<times> Server)" where
  "ServerThreadMaintainence_ThreadMain rightNow s =
     (case OutboxTimeout rightNow s of
        Inl f \<Rightarrow> Inl f
      | Inr (u, s1) \<Rightarrow> Inr ([], s1))"

subsection \<open>Runs of the server\<close>

text \<open>A run is a sequence of completed loop turns of the four threads, in any
  interleaving; the states between two turns are the quiescent points.\<close>

datatype event =
    ClientDatagram DNSPacket "byte list" sockaddr_in
  | ProcessNext time_point bool
  | UpstreamDatagram DNSPacket "byte list" sockaddr_in time_point bool
  | Maintenance time_point

fun step :: "event \<Rightarrow> Server \<Rightarrow> fault + (effect list \<times> Server)" where
  "step (ClientDatagram packet datagram a) s =
     Inr ([], ServerThreadInbox_ThreadMain packet datagram a s)"
| "step (ProcessNext now sendOk) s = ServerThreadProcess_ThreadMain now sendOk s"
| "step (UpstreamDatagram packet datagram a now sendOk) s =
     ServerThreadOutbox_ThreadMain packet datagram a now sendOk s"
| "step (Maintenance now) s = ServerThreadMaintainence_ThreadMain now s"

fun run :: "event list \<Rightarrow> Server \<Rightarrow> fault + (effect list \<times> Server)" where
  "run [] s = Inr ([], s)"
| "run (e # es) s =
     (case step e s of
        Inl f \<Rightarrow> Inl f
      | Inr (out, s1) \<Rightarrow>
          (case run es s1 of
             Inl f \<Rightarrow> Inl f
           | Inr (outs, s2) \<Rightarrow> Inr (out @ outs, s2)))"

text \<open>The number of Requests stored in the outbox array.\<close>

definition outbox_size :: "Server \<Rightarrow> nat" where
  "outbox_size s = length (filter (\<lambda>i. mOutboxArray s i \<noteq> None) [0..<USHRT_MAX])"

text \<open>The figure that \<open>RunServer\<close> prints as \<open>Processing\<close>.\<close>

definition processing :: "Server \<Rightarrow> 32 word" where
  "processing s = mStatsRequests s - (mStatsServed s + mStatsTimeOuts s)"

definition stats_balanced :: "Server \<Rightarrow> bool" where
  "stats_balanced s \<longleftrightarrow>
     mStatsRequests s = mStatsServed s + mStatsTimeOuts s + of_nat (outbox_size s)"

text \<open>A turn evicts when it pushed an id onto \<open>mOutboxQueue\<close> whose slot of
  \<open>mOutboxArray\<close> held a Request before the turn: the assignment in \<open>OutboxAdd\<close> then
  destroys that Request.\<close>

definition evicts :: "event \<Rightarrow> Server \<Rightarrow> bool" where
  "evicts e s =
     (case step e s of
        Inl f \<Rightarrow> False
      | Inr (out, s1) \<Rightarrow>
          length (mOutboxQueue s) < length (mOutboxQueue s1)
          \<and> mOutboxArray s (unat (last (mOutboxQueue s1))) \<noteq> None)"

fun evictions :: "event list \<Rightarrow> Server \<Rightarrow> nat" where
  "evictions [] s = 0"
| "evictions (e # es) s =
     (case step e s of
        Inl f \<Rightarrow> 0
      | Inr (out, s1) \<Rightarrow> (if evicts e s then 1 else 0) + evictions es s1)"

subsection \<open>The sweep of the specification\<close>

text \<open>The reference algorithm, in the specification's words: walk the FIFO from the
  front; for each id, if \<open>table[id]\<close> is empty, pop it and continue; if present and
  \<open>now - forwarded_at \<ge> deadline_ms\<close>, remove it from the table, pop it from the FIFO
  and count one timeout; otherwise stop. The table is keyed by the 16-bit id; the result
  is the number of timeouts, the table and the FIFO. Times are in nanoseconds.\<close>

fun sweep_reference ::
  "time_point \<Rightarrow> int \<Rightarrow> (16 word \<Rightarrow> Request option) \<Rightarrow> 16 word list
     \<Rightarrow> nat \<times> (16 word \<Rightarrow> Request option) \<times> 16 word list" where
  "sweep_reference now deadline_ms table [] = (0, table, [])"
| "sweep_reference now deadline_ms table (i # fifo) =
     (case table i of
        None \<Rightarrow> sweep_reference now deadline_ms table fifo
      | Some req \<Rightarrow>
          if now - mForwardedTime req \<ge> deadline_ms * 1000000
          then (let (count, table', fifo') = sweep_reference now deadline_ms (table(i := None)) fifo
                in (count + 1, table', fifo'))
          else (0, table, i # fifo))"

subsection \<open>Example data\<close>

text \<open>The resolver 8.8.8.8:53, a client, a stranger; a query for the name \<open>a\<close> with
  id \<open>0xABCD\<close>; a response with a given id; the Request of the query as the inbox
  thread queues it and as the outbox holds it, forwarded at time 0 with id 1; the server
  holding that one Request.\<close>

definition resolver_addr :: sockaddr_in where
  "resolver_addr = \<lparr>sin_addr = 0x08080808, sin_port = 53\<rparr>"

definition attacker_addr :: sockaddr_in where
  "attacker_addr = \<lparr>sin_addr = 0x01020304, sin_port = 53\<rparr>"

definition client_addr :: sockaddr_in where
  "client_addr = \<lparr>sin_addr = 0xC0000207, sin_port = 40000\<rparr>"

definition blank_packet :: DNSPacket where
  "blank_packet = \<lparr> mRawPacketData = None, mHeader = header_of_bytes (replicate 12 0),
      mQuestionName = [], mQuestion = question_of_bytes (replicate 4 0) \<rparr>"

definition query_bytes :: "byte list" where
  "query_bytes = [0xAB, 0xCD, 0x01, 0x00, 0, 1, 0, 0, 0, 0, 0, 0, 1, 0x61, 0, 0, 1, 0, 1]"

definition reply_bytes :: "byte \<Rightarrow> byte \<Rightarrow> byte list" where
  "reply_bytes hi lo = [hi, lo, 0x81, 0x80, 0, 1, 0, 0, 0, 0, 0, 0, 1, 0x61, 0, 0, 1, 0, 1]"

definition pending_request :: Request where
  "pending_request =
     \<lparr> mPacket = \<lparr> mRawPacketData = Some ([0, 1] @ drop 2 query_bytes),
                   mHeader = header_of_bytes (take 12 query_bytes),
                   mQuestionName = ''a'',
                   mQuestion = \<lparr>qtype = 1, qclass = 1\<rparr> \<rparr>,
       mClientAddr = client_addr, mClientPacketID = 0xABCD, mOurPacketID = 1,
       mDomainName = ''a'', mForwardedTime = 0 \<rparr>"

definition pending_server :: Server where
  "pending_server =
     \<lparr> mFwdSocketAddr = resolver_addr, mGenIDCounter = 1, mInboxQueue = [],
       mInboxQueueSemaphore = 0, mOutboxArray = (\<lambda>i. None)(1 := Some pending_request),
       mOutboxQueue = [1], mOutboxSemaphore = 1, mStatsPacketsIn = 1, mStatsPacketsOut = 1,
       mStatsRequests = 1, mStatsServed = 0, mStatsTimeOuts = 0 \<rparr>"

definition queued_request :: Request where
  "queued_request =
     \<lparr> mPacket = SetRawData blank_packet query_bytes, mClientAddr = client_addr,
       mClientPacketID = 0, mOurPacketID = 0, mDomainName = [], mForwardedTime = 0 \<rparr>"

section \<open>Properties\<close>

subsection \<open>The id generator\<close>

lemma GenerateUniqueID_counter: "mGenIDCounter (snd (GenerateUniqueID s)) = fst (GenerateUniqueID s)"
  by (simp add: GenerateUniqueID_def Let_def)

lemma unat16_less: "(c::16 word) \<noteq> 65535 \<Longrightarrow> unat c < 65535"
proof -
  assume ne: "c \<noteq> 65535"
  have "unat c < 65536" using unsigned_less [of c, where ?'a = nat] by simp
  moreover have "unat c \<noteq> 65535"
  proof
    assume "unat c = 65535"
    then have "of_nat (unat c) = (of_nat 65535 :: 16 word)" by simp
    then have "c = 65535" by simp
    with ne show False by simp
  qed
  ultimately show ?thesis by simp
qed

lemma unat_less_ne: "unat (c::16 word) < 65535 \<Longrightarrow> c \<noteq> 65535"
proof
  assume a: "unat c < 65535" and "c = 65535"
  then have "unat c = 65535" by simp
  with a show False by simp
qed

lemma mod_shift: "(a mod m + 1 + k) mod m + 1 = (a + Suc k) mod m + (1::nat)"
proof -
  have "(a mod m + (1 + k)) mod m = (a + (1 + k)) mod m"
    by (rule mod_add_left_eq)
  then show ?thesis by (simp add: add.assoc)
qed

lemma unat_succ16: "(c::16 word) \<noteq> 65535 \<Longrightarrow> unat (c + 1) = unat c + 1"
  using unat16_less [of c] by (simp add: unat_word_ariths)

lemma GenerateUniqueID_value:
  assumes "mGenIDCounter s \<noteq> 65535"
  shows "unat (fst (GenerateUniqueID s)) = unat (mGenIDCounter s) mod 65534 + 1"
proof -
  have a: "unat (mGenIDCounter s + 1) = unat (mGenIDCounter s) + 1"
    using assms by (rule unat_succ16)
  have b: "unat (mGenIDCounter s) < 65535"
    using assms by (rule unat16_less)
  show ?thesis
  proof (cases "unat (mGenIDCounter s) = 65534")
    case True
    then show ?thesis by (simp add: GenerateUniqueID_def Let_def a USHRT_MAX_def)
  next
    case False
    with b have "unat (mGenIDCounter s) < 65534" by simp
    then show ?thesis by (simp add: GenerateUniqueID_def Let_def a USHRT_MAX_def)
  qed
qed

lemma GenerateUniqueID_calls_nth:
  "mGenIDCounter s \<noteq> 65535 \<Longrightarrow> k < n \<Longrightarrow>
   unat (GenerateUniqueID_calls n s ! k) = (unat (mGenIDCounter s) + k) mod 65534 + 1"
proof (induction n arbitrary: s k)
  case 0
  then show ?case by simp
next
  case (Suc n)
  let ?s' = "snd (GenerateUniqueID s)"
  have v: "unat (fst (GenerateUniqueID s)) = unat (mGenIDCounter s) mod 65534 + 1"
    using Suc.prems(1) by (rule GenerateUniqueID_value)
  show ?case
  proof (cases k)
    case 0
    then show ?thesis using v by simp
  next
    case (Suc k')
    have c': "unat (mGenIDCounter ?s') = unat (mGenIDCounter s) mod 65534 + 1"
      using v by (simp add: GenerateUniqueID_counter)
    have "unat (mGenIDCounter ?s') < 65535"
      unfolding c' by simp
    then have ne: "mGenIDCounter ?s' \<noteq> 65535"
      by (rule unat_less_ne)
    from Suc Suc.prems have k': "k' < n" by simp
    have "unat (GenerateUniqueID_calls n ?s' ! k') = (unat (mGenIDCounter ?s') + k') mod 65534 + 1"
      using ne k' by (rule Suc.IH)
    also have "\<dots> = (unat (mGenIDCounter s) + k) mod 65534 + 1"
      unfolding c' Suc by (rule mod_shift)
    finally show ?thesis using Suc by simp
  qed
qed

lemma GenerateUniqueID_calls_length: "length (GenerateUniqueID_calls n s) = n"
  by (induction n arbitrary: s) auto

text \<open>C4 (as amended): on every counter the server can hold (it starts at 0 and never
  becomes 65535), \<open>GenerateUniqueID\<close> never returns 0, returns a value of 1..65534 and
  leaves such a counter again; the \<open>k\<close>-th of \<open>n\<close> successive calls returns
  \<open>(counter + k) mod 65534 + 1\<close>, so the calls run through every value of 1..65534
  before any value repeats, and 65535 is never returned.\<close>

theorem GenerateUniqueID_cycle:
  assumes "mGenIDCounter s \<noteq> 65535"
  shows "fst (GenerateUniqueID s) \<noteq> 0
       \<and> 1 \<le> unat (fst (GenerateUniqueID s)) \<and> unat (fst (GenerateUniqueID s)) \<le> 65534
       \<and> mGenIDCounter (snd (GenerateUniqueID s)) \<noteq> 65535
       \<and> (\<forall>k<n. unat (GenerateUniqueID_calls n s ! k) = (unat (mGenIDCounter s) + k) mod 65534 + 1)"
proof -
  have v: "unat (fst (GenerateUniqueID s)) = unat (mGenIDCounter s) mod 65534 + 1"
    using assms by (rule GenerateUniqueID_value)
  have lt: "unat (mGenIDCounter s) mod 65534 < 65534" by simp
  have 1: "fst (GenerateUniqueID s) \<noteq> 0"
  proof
    assume "fst (GenerateUniqueID s) = 0"
    then have "unat (fst (GenerateUniqueID s)) = 0" by simp
    with v show False by simp
  qed
  have 2: "1 \<le> unat (fst (GenerateUniqueID s))" using v by simp
  have 3: "unat (fst (GenerateUniqueID s)) \<le> 65534" using v lt by simp
  have "unat (mGenIDCounter (snd (GenerateUniqueID s))) < 65535"
    using 3 by (simp add: GenerateUniqueID_counter)
  then have 4: "mGenIDCounter (snd (GenerateUniqueID s)) \<noteq> 65535"
    by (rule unat_less_ne)
  have 5: "\<forall>k<n. unat (GenerateUniqueID_calls n s ! k) = (unat (mGenIDCounter s) + k) mod 65534 + 1"
    using assms by (simp add: GenerateUniqueID_calls_nth)
  from 1 2 3 4 5 show ?thesis by blast
qed

theorem GenerateUniqueID_cycle_witness:
  "fst (GenerateUniqueID (Server_new \<lparr>sin_addr = 0x08080808, sin_port = 53\<rparr>)) = 1
   \<and> unat (GenerateUniqueID_calls 3 (Server_new \<lparr>sin_addr = 0x08080808, sin_port = 53\<rparr>) ! 2) = 3"
proof -
  have ne: "mGenIDCounter (Server_new \<lparr>sin_addr = 0x08080808, sin_port = 53\<rparr>) \<noteq> 65535"
    by (simp add: Server_new_def)
  have "fst (GenerateUniqueID (Server_new \<lparr>sin_addr = 0x08080808, sin_port = 53\<rparr>)) = 1"
    by (simp add: GenerateUniqueID_def Server_new_def USHRT_MAX_def)
  then show ?thesis
    using GenerateUniqueID_cycle [OF ne, of 3] by (simp add: Server_new_def)
qed

text \<open>C4 as stated fails: from the new server the 65534th call returns 65534 and the
  65535th call returns 1 again, the value of the first call, so 65535 is skipped and a
  value repeats within 65535 calls.\<close>

theorem GenerateUniqueID_skips_65535:
  "unat (GenerateUniqueID_calls 65535 (Server_new \<lparr>sin_addr = 0x08080808, sin_port = 53\<rparr>) ! 65533) = 65534
 \<and> unat (GenerateUniqueID_calls 65535 (Server_new \<lparr>sin_addr = 0x08080808, sin_port = 53\<rparr>) ! 65534) = 1
 \<and> unat (GenerateUniqueID_calls 65535 (Server_new \<lparr>sin_addr = 0x08080808, sin_port = 53\<rparr>) ! 0) = 1"
proof -
  have ne: "mGenIDCounter (Server_new \<lparr>sin_addr = 0x08080808, sin_port = 53\<rparr>) \<noteq> 65535"
    by (simp add: Server_new_def)
  show ?thesis
    using GenerateUniqueID_calls_nth [OF ne, of 65533 65535]
      GenerateUniqueID_calls_nth [OF ne, of 65534 65535]
      GenerateUniqueID_calls_nth [OF ne, of 0 65535]
    by (simp add: Server_new_def)
qed

subsection \<open>The pipeline\<close>

lemma elapsed_ms_ge: "elapsed_ms a b \<ge> 2000 \<longleftrightarrow> a - b \<ge> 2000000000"
proof (cases "a - b \<ge> 0")
  case True
  then have "elapsed_ms a b = (a - b) div 1000000"
    by (cases "a - b = 0") (simp_all add: elapsed_ms_def)
  moreover have "a - b = 1000000 * ((a - b) div 1000000) + (a - b) mod 1000000"
    by simp
  moreover have "0 \<le> (a - b) mod 1000000" and "(a - b) mod 1000000 < 1000000"
    by simp_all
  ultimately show ?thesis by linarith
next
  case False
  then have "elapsed_ms a b = - (\<bar>a - b\<bar> div 1000000)"
    by (simp add: elapsed_ms_def)
  moreover have "\<bar>a - b\<bar> div 1000000 \<ge> 0" by simp
  ultimately show ?thesis using False by linarith
qed

text \<open>C2: a datagram on the upstream socket whose source address or source port
  differs from the configured resolver's is dropped: the loop turn of the outbox thread
  sends nothing and leaves the whole server state, the outbox with it, as it was,
  whatever the datagram holds.\<close>

theorem foreign_source_dropped:
  assumes "sin_addr inFrom \<noteq> sin_addr (mFwdSocketAddr s) \<or> sin_port inFrom \<noteq> sin_port (mFwdSocketAddr s)"
  shows "ServerThreadOutbox_ThreadMain packet datagram inFrom rightNow sendOk s = Inr ([], s)"
  using assms
  by (auto simp: ServerThreadOutbox_ThreadMain_def ServerThreadOutbox_HandlePacket_def)

text \<open>A reply from 1.2.3.4:53 while the resolver is 8.8.8.8:53.\<close>

theorem foreign_source_dropped_witness:
  "ServerThreadOutbox_ThreadMain blank_packet (reply_bytes 0 1) attacker_addr 5 True (Server_new resolver_addr)
     = Inr ([], Server_new resolver_addr)"
proof -
  have "sin_addr attacker_addr \<noteq> sin_addr (mFwdSocketAddr (Server_new resolver_addr))
      \<or> sin_port attacker_addr \<noteq> sin_port (mFwdSocketAddr (Server_new resolver_addr))"
    by (simp add: attacker_addr_def resolver_addr_def Server_new_def)
  then show ?thesis by (rule foreign_source_dropped)
qed

text \<open>C10: on a queue whose front is a Request, \<open>InboxQueuePopFront\<close> removes and
  returns that Request; it reads \<open>front()\<close> before any test, so the read is in bounds
  exactly when the queue is not empty.\<close>

theorem InboxQueuePopFront_front:
  "(mInboxQueue s = Some req # rest \<longrightarrow>
      InboxQueuePopFront s = Inr (Some req, s\<lparr>mInboxQueue := rest\<rparr>))
   \<and> (InboxQueuePopFront s = Inl FrontOfEmptyQueue \<longleftrightarrow> mInboxQueue s = [])
   \<and> ((\<exists>r. InboxQueuePopFront s = Inr r) \<longleftrightarrow> mInboxQueue s \<noteq> [])"
  by (auto simp: InboxQueuePopFront_def split: list.splits option.splits)

lemma Decode_raw: "mRawPacketData (snd (Decode p)) = mRawPacketData p"
  by (simp add: Decode_def Let_def split: option.splits prod.splits)

lemma Decode_header:
  "mRawPacketData p = Some raw \<Longrightarrow>
   mHeader (snd (Decode p)) = (if length raw < 12 then mHeader p else header_of_bytes (take 12 raw))"
  by (simp add: Decode_def Let_def split: prod.splits)

lemma Decode_ok_length:
  "Decode p = (0, pkt) \<Longrightarrow> \<exists>raw. mRawPacketData p = Some raw \<and> 12 \<le> length raw"
  by (auto simp: Decode_def Let_def split: option.splits prod.splits if_splits)

lemma htons_ntohs: "htons_bytes (ntohs_bytes a b) = [a, b]"
proof -
  have "(ucast (drop_bit 8 (push_bit 8 (ucast a) OR (ucast b :: 16 word))) :: 8 word) = a"
    by (rule bit_word_eqI) (auto simp: bit_simps dest: bit_imp_le_length)
  moreover have "(ucast (push_bit 8 (ucast a) OR (ucast b :: 16 word)) :: 8 word) = b"
    by (rule bit_word_eqI) (auto simp: bit_simps)
  ultimately show ?thesis by (simp add: htons_bytes_def ntohs_bytes_def)
qed

lemma length_htons [simp]: "length (htons_bytes w) = 2"
  by (simp add: htons_bytes_def)

lemma memcpy_id: "2 \<le> length raw \<Longrightarrow> memcpy_to raw 0 (htons_bytes w) = Inr (htons_bytes w @ drop 2 raw)"
  by (simp add: memcpy_to_def numeral_2_eq_2)

lemma GenerateUniqueID_in_bounds: "unat (fst (GenerateUniqueID s)) < USHRT_MAX"
proof -
  have "unat (mGenIDCounter s + 1) < 65536"
    using unsigned_less [of "mGenIDCounter s + 1", where ?'a = nat] by simp
  then show ?thesis
    by (cases "unat (mGenIDCounter s + 1) = 65535")
       (simp_all add: GenerateUniqueID_def Let_def USHRT_MAX_def)
qed

lemma GenerateUniqueID_stats [simp]:
  "fst (GenerateUniqueID (s\<lparr>mStatsRequests := n\<rparr>)) = fst (GenerateUniqueID s)"
  by (simp add: GenerateUniqueID_def Let_def)

lemma HandleRequest_cases:
  assumes h: "ServerThreadProcess_HandleRequest inReq now ok s = Inr (rc, out, s')"
  shows "(s' = s \<and> out = []) \<or>
    (\<exists>query pkt. mRawPacketData (mPacket inReq) = Some query \<and> 12 \<le> length query
       \<and> Decode (mPacket inReq) = (0, pkt) \<and> \<not> resp (mHeader pkt)
       \<and> s' = s\<lparr> mStatsRequests := mStatsRequests s + 1,
                  mGenIDCounter := fst (GenerateUniqueID s),
                  mOutboxQueue := mOutboxQueue s @ [fst (GenerateUniqueID s)],
                  mOutboxArray := (mOutboxArray s)(unat (fst (GenerateUniqueID s)) :=
                     Some (inReq\<lparr> mDomainName := mQuestionName pkt,
                                   mPacket := pkt\<lparr>mRawPacketData :=
                                       Some (htons_bytes (fst (GenerateUniqueID s)) @ drop 2 query)\<rparr>,
                                   mClientPacketID := ntohs_bytes (query ! 0) (query ! 1),
                                   mOurPacketID := fst (GenerateUniqueID s),
                                   mForwardedTime := now \<rparr>)),
                  mOutboxSemaphore := mOutboxSemaphore s + 1,
                  mStatsPacketsOut := mStatsPacketsOut s + 1 \<rparr>
       \<and> out = (if ok then [SendTo FwdSocket (mFwdSocketAddr s)
                               (htons_bytes (fst (GenerateUniqueID s)) @ drop 2 query)] else []))"
proof -
  obtain rc0 pkt where d: "Decode (mPacket inReq) = (rc0, pkt)"
    by (cases "Decode (mPacket inReq)")
  show ?thesis
  proof (cases "rc0 \<noteq> 0 \<or> resp (mHeader pkt)")
    case True
    with h d show ?thesis
      by (auto simp: ServerThreadProcess_HandleRequest_def split: if_splits)
  next
    case False
    then have rc0: "rc0 = 0" and nr: "\<not> resp (mHeader pkt)" by simp_all
    from d rc0 obtain query where q: "mRawPacketData (mPacket inReq) = Some query"
      and l: "12 \<le> length query"
      using Decode_ok_length by blast
    have pq: "mRawPacketData pkt = Some query"
      using Decode_raw [of "mPacket inReq"] d q by simp
    have l2: "2 \<le> length query" using l by simp
    have b: "unat (fst (GenerateUniqueID s)) < USHRT_MAX"
      by (rule GenerateUniqueID_in_bounds)
    have g: "GenerateUniqueID (s\<lparr>mStatsRequests := mStatsRequests s + 1\<rparr>)
               = (fst (GenerateUniqueID s),
                  s\<lparr>mStatsRequests := mStatsRequests s + 1, mGenIDCounter := fst (GenerateUniqueID s)\<rparr>)"
      by (simp add: GenerateUniqueID_def Let_def)
    have "s' = s\<lparr> mStatsRequests := mStatsRequests s + 1,
                  mGenIDCounter := fst (GenerateUniqueID s),
                  mOutboxQueue := mOutboxQueue s @ [fst (GenerateUniqueID s)],
                  mOutboxArray := (mOutboxArray s)(unat (fst (GenerateUniqueID s)) :=
                     Some (inReq\<lparr> mDomainName := mQuestionName pkt,
                                   mPacket := pkt\<lparr>mRawPacketData :=
                                       Some (htons_bytes (fst (GenerateUniqueID s)) @ drop 2 query)\<rparr>,
                                   mClientPacketID := ntohs_bytes (query ! 0) (query ! 1),
                                   mOurPacketID := fst (GenerateUniqueID s),
                                   mForwardedTime := now \<rparr>)),
                  mOutboxSemaphore := mOutboxSemaphore s + 1,
                  mStatsPacketsOut := mStatsPacketsOut s + 1 \<rparr>
       \<and> out = (if ok then [SendTo FwdSocket (mFwdSocketAddr s)
                               (htons_bytes (fst (GenerateUniqueID s)) @ drop 2 query)] else [])"
      using h d rc0 nr pq l2 b
      by (auto simp: ServerThreadProcess_HandleRequest_def GetRawPacketID_def SetRawPacketID_def
            memcpy_id OutboxAdd_def Let_def raw_bytes_def g
            split: if_splits)
    with q l d rc0 nr show ?thesis by blast
  qed
qed

lemma Decode_query:
  "Decode (SetRawData blank_packet query_bytes)
     = (0, \<lparr> mRawPacketData = Some query_bytes,
                   mHeader = header_of_bytes (take 12 query_bytes),
                   mQuestionName = ''a'',
                   mQuestion = \<lparr>qtype = 1, qclass = 1\<rparr> \<rparr>)"
  by (simp add: Decode_def SetRawData_def blank_packet_def query_bytes_def DecodeAddrStr_def
       DecodeAddrStr_loop.simps Let_def question_of_bytes_def ntohs_bytes_def char_of_byte_def char_of_def bit_Suc_0_iff)

lemma run_pending:
  "run [ClientDatagram blank_packet query_bytes client_addr, ProcessNext 0 True] (Server_new resolver_addr)
     = Inr ([SendTo FwdSocket resolver_addr ([0, 1] @ drop 2 query_bytes)], pending_server)"
  apply (simp add: ServerThreadInbox_ThreadMain_def ServerThreadInbox_HandlePacket_def InboxQueuePushBack_def
     ServerThreadProcess_ThreadMain_def InboxQueuePopFront_def Server_new_def SERVER_BUFFER_SIZE_def
     SERVER_MAX_PACKET_SIZE_def ServerThreadProcess_HandleRequest_def Decode_query)
  apply (simp add: query_bytes_def  Let_def header_of_bytes_def
     GenerateUniqueID_def  USHRT_MAX_def GetRawPacketID_def SetRawPacketID_def memcpy_to_def htons_bytes_def
     OutboxAdd_def raw_bytes_def pending_server_def pending_request_def ntohs_bytes_def)
  done

lemma HandlePacket_cases:
  assumes h: "ServerThreadOutbox_HandlePacket packet inData inFrom rightNow ok s = Inr (rc, out, s')"
  shows "(s' = s \<and> out = []) \<or>
    (2 \<le> length inData \<and> unat (ntohs_bytes (inData ! 0) (inData ! 1)) < USHRT_MAX \<and>
      (case mOutboxArray s (unat (ntohs_bytes (inData ! 0) (inData ! 1))) of
         None \<Rightarrow> s' = s\<lparr>mStatsPacketsIn := mStatsPacketsIn s + 1\<rparr> \<and> out = []
       | Some req \<Rightarrow>
           if elapsed_ms rightNow (mForwardedTime req) \<ge> SERVER_TIMEOUT_MS
           then s' = s\<lparr> mStatsPacketsIn := mStatsPacketsIn s + 1,
                         mOutboxArray := (mOutboxArray s)(unat (ntohs_bytes (inData ! 0) (inData ! 1)) := None),
                         mStatsTimeOuts := mStatsTimeOuts s + 1 \<rparr> \<and> out = []
           else s' = s\<lparr> mStatsPacketsIn := mStatsPacketsIn s + 1,
                         mOutboxArray := (mOutboxArray s)(unat (ntohs_bytes (inData ! 0) (inData ! 1)) := None),
                         mStatsServed := mStatsServed s + 1,
                         mStatsPacketsOut := mStatsPacketsOut s + 1 \<rparr>
                \<and> out = (if ok then [SendTo ServerSocket (mClientAddr req)
                                         (htons_bytes (mClientPacketID req) @ drop 2 inData)]
                          else [])))"
proof (cases "2 \<le> length inData")
  case False
  with h show ?thesis
    by (auto simp: ServerThreadOutbox_HandlePacket_def GetRawPacketID_def SetRawData_def
          split: if_splits)
next
  case True
  then have g: "GetRawPacketID (SetRawData packet inData) = Inr (0, ntohs_bytes (inData ! 0) (inData ! 1))"
    by (simp add: GetRawPacketID_def SetRawData_def)
  have r: "mRawPacketData (snd (Decode (SetRawData packet inData))) = Some inData"
    by (simp add: Decode_raw SetRawData_def)
  have st: "SetRawPacketID (snd (Decode (SetRawData packet inData))) w
             = Inr (0, (snd (Decode (SetRawData packet inData)))\<lparr>mRawPacketData := Some (htons_bytes w @ drop 2 inData)\<rparr>)"
    for w
    using True by (simp add: SetRawPacketID_def r memcpy_id)
  from h True show ?thesis
    by (auto simp: ServerThreadOutbox_HandlePacket_def g st OutboxRemove_def Let_def raw_bytes_def
          SERVER_VERBOSE_def split: if_splits option.splits)
qed

lemma ntohs_htons: "ntohs_bytes (htons_bytes w ! 0) (htons_bytes w ! 1) = w"
proof -
  have "push_bit 8 (ucast (ucast (drop_bit 8 w) :: 8 word)) OR ucast (ucast w :: 8 word) = w"
    by (rule bit_word_eqI) (auto simp: bit_simps)
  then show ?thesis by (simp add: htons_bytes_def ntohs_bytes_def)
qed

lemma HandleRequest_queued:
  "ServerThreadProcess_HandleRequest queued_request 0 True
       ((Server_new resolver_addr)\<lparr>mStatsPacketsIn := 1\<rparr>)
     = Inr (0, [SendTo FwdSocket resolver_addr ([0, 1] @ drop 2 query_bytes)], pending_server)"
  apply (simp add: Server_new_def ServerThreadProcess_HandleRequest_def Decode_query queued_request_def)
  apply (simp add: query_bytes_def  Let_def header_of_bytes_def
     GenerateUniqueID_def  USHRT_MAX_def GetRawPacketID_def SetRawPacketID_def memcpy_to_def htons_bytes_def
     OutboxAdd_def raw_bytes_def pending_server_def pending_request_def ntohs_bytes_def)
  done

lemma HandlePacket_reply:
  "ServerThreadOutbox_HandlePacket blank_packet (reply_bytes 0 1) resolver_addr 50000000 True pending_server
     = Inr (0, [SendTo ServerSocket client_addr ([0xAB, 0xCD] @ drop 2 (reply_bytes 0 1))],
            pending_server\<lparr> mStatsPacketsIn := 2, mOutboxArray := (\<lambda>i. None),
                              mStatsServed := 1, mStatsPacketsOut := 2 \<rparr>)"
proof -
  have r: "mRawPacketData (SetRawData blank_packet (reply_bytes 0 1)) = Some (reply_bytes 0 1)"
    by (simp add: SetRawData_def)
  have hd: "resp (mHeader (snd (Decode (SetRawData blank_packet (reply_bytes 0 1)))))"
    by (simp add: Decode_header [OF r]) (simp add: reply_bytes_def header_of_bytes_def)
  have raw: "mRawPacketData (snd (Decode (SetRawData blank_packet (reply_bytes 0 1)))) = Some (reply_bytes 0 1)"
    by (simp add: Decode_raw r)
  have g: "GetRawPacketID (SetRawData blank_packet (reply_bytes 0 1)) = Inr (0, 1)"
    by (simp add: GetRawPacketID_def r) (simp add: reply_bytes_def ntohs_bytes_def)
  have st: "SetRawPacketID (snd (Decode (SetRawData blank_packet (reply_bytes 0 1)))) 0xABCD
     = Inr (0, (snd (Decode (SetRawData blank_packet (reply_bytes 0 1))))\<lparr>mRawPacketData :=
           Some ([0xAB, 0xCD] @ drop 2 (reply_bytes 0 1))\<rparr>)"
    by (simp add: SetRawPacketID_def raw) (simp add: reply_bytes_def memcpy_to_def htons_bytes_def)
  have e: "elapsed_ms 50000000 0 = 50" by (simp add: elapsed_ms_def)
  have len: "length (reply_bytes 0 1) = 19" by (simp add: reply_bytes_def)
  show ?thesis
    by (simp add: ServerThreadOutbox_HandlePacket_def g hd Let_def OutboxRemove_def st raw_bytes_def
          pending_server_def pending_request_def resolver_addr_def len
          SERVER_MAX_PACKET_SIZE_def USHRT_MAX_def e SERVER_TIMEOUT_MS_def)
qed

text \<open>C1: a client's datagram \<open>query\<close> is forwarded as \<open>forwarded\<close>; while its
  Request is still in the outbox a reply carrying the id of \<open>forwarded\<close> arrives and is
  delivered as \<open>e\<close>. Then \<open>e\<close> goes to that client on the server socket and holds the
  reply's bytes with bytes 0 and 1 replaced by bytes 0 and 1 of \<open>query\<close>; what was
  forwarded is \<open>query\<close> with only bytes 0 and 1 replaced.\<close>

theorem reply_restores_client_id:
  assumes fwd: "ServerThreadProcess_HandleRequest inReq t1 ok1 s0 = Inr (rc1, [SendTo FwdSocket a forwarded], s1)"
    and raw: "mRawPacketData (mPacket inReq) = Some query"
    and pend: "mOutboxArray s2 (unat (ntohs_bytes (forwarded ! 0) (forwarded ! 1)))
               = mOutboxArray s1 (unat (ntohs_bytes (forwarded ! 0) (forwarded ! 1)))"
    and rid: "take 2 reply = take 2 forwarded"
    and dlv: "ServerThreadOutbox_HandlePacket packet reply inFrom t2 ok2 s2 = Inr (rc2, [e], s3)"
  shows "e = SendTo ServerSocket (mClientAddr inReq) (take 2 query @ drop 2 reply)
         \<and> forwarded = take 2 forwarded @ drop 2 query"
proof -
  let ?id = "fst (GenerateUniqueID s0)"
  from HandleRequest_cases [OF fwd] raw obtain pkt where
      lq: "12 \<le> length query"
    and s1: "mOutboxArray s1 (unat ?id) =
          Some (inReq\<lparr> mDomainName := mQuestionName pkt,
                        mPacket := pkt\<lparr>mRawPacketData := Some (htons_bytes ?id @ drop 2 query)\<rparr>,
                        mClientPacketID := ntohs_bytes (query ! 0) (query ! 1),
                        mOurPacketID := ?id, mForwardedTime := t1 \<rparr>)"
    and o1: "[SendTo FwdSocket a forwarded]
              = (if ok1 then [SendTo FwdSocket (mFwdSocketAddr s0) (htons_bytes ?id @ drop 2 query)] else [])"
    by auto
  from o1 have f: "forwarded = htons_bytes ?id @ drop 2 query"
    by (simp split: if_splits)
  have fid: "ntohs_bytes (forwarded ! 0) (forwarded ! 1) = ?id"
    using ntohs_htons [of ?id] by (simp add: f htons_bytes_def)
  have t2f: "take 2 forwarded = htons_bytes ?id"
    by (simp add: f)
  from HandlePacket_cases [OF dlv] have lr: "2 \<le> length reply"
    by auto
  have r0: "reply ! 0 = forwarded ! 0" and r1: "reply ! 1 = forwarded ! 1"
    using rid lr by (metis nth_take zero_less_numeral, metis nth_take one_less_numeral_iff semiring_norm(76))
  have rid': "ntohs_bytes (reply ! 0) (reply ! 1) = ?id"
    unfolding r0 r1 by (rule fid)
  have p2: "mOutboxArray s2 (unat ?id) =
          Some (inReq\<lparr> mDomainName := mQuestionName pkt,
                        mPacket := pkt\<lparr>mRawPacketData := Some (htons_bytes ?id @ drop 2 query)\<rparr>,
                        mClientPacketID := ntohs_bytes (query ! 0) (query ! 1),
                        mOurPacketID := ?id, mForwardedTime := t1 \<rparr>)"
    using pend s1 unfolding fid by simp
  from HandlePacket_cases [OF dlv, unfolded rid' p2] have
    e: "e = SendTo ServerSocket (mClientAddr inReq)
              (htons_bytes (ntohs_bytes (query ! 0) (query ! 1)) @ drop 2 reply)"
    by (auto split: if_splits)
  have "take 2 query = [query ! 0, query ! 1]"
    using lq by (cases query; cases "tl query") auto
  then have "htons_bytes (ntohs_bytes (query ! 0) (query ! 1)) = take 2 query"
    by (simp add: htons_ntohs)
  with e t2f f show ?thesis by simp
qed

text \<open>The query with id \<open>0xABCD\<close>, forwarded with id 1 and answered after 50 ms.\<close>

theorem reply_restores_client_id_witness:
  "SendTo ServerSocket client_addr ([0xAB, 0xCD] @ drop 2 (reply_bytes 0 1))
     = SendTo ServerSocket (mClientAddr queued_request) (take 2 query_bytes @ drop 2 (reply_bytes 0 1))
   \<and> [0, 1] @ drop 2 query_bytes = take 2 ([0, 1] @ drop 2 query_bytes) @ drop 2 query_bytes"
proof -
  have raw: "mRawPacketData (mPacket queued_request) = Some query_bytes"
    by (simp add: queued_request_def SetRawData_def)
  have rid: "take 2 (reply_bytes 0 1) = take 2 ([0, 1] @ drop 2 query_bytes)"
    by (simp add: reply_bytes_def)
  show ?thesis
    by (rule reply_restores_client_id [OF HandleRequest_queued raw refl rid HandlePacket_reply])
qed

text \<open>C5: the outbox array has \<open>USHRT_MAX\<close> slots, 0..65534. A response from the
  resolver whose id bytes are \<open>0xFF 0xFF\<close> makes \<open>OutboxRemove\<close> index slot 65535.\<close>

theorem id_65535_out_of_bounds:
  "ServerThreadOutbox_HandlePacket blank_packet (reply_bytes 0xFF 0xFF) resolver_addr 50000000 True
       (Server_new resolver_addr)
     = Inl (ArrayIndexOutOfBounds 65535)"
proof -
  have r: "mRawPacketData (SetRawData blank_packet (reply_bytes 0xFF 0xFF)) = Some (reply_bytes 0xFF 0xFF)"
    by (simp add: SetRawData_def)
  have hd: "resp (mHeader (snd (Decode (SetRawData blank_packet (reply_bytes 0xFF 0xFF)))))"
    by (simp add: Decode_header [OF r]) (simp add: reply_bytes_def header_of_bytes_def)
  have g: "GetRawPacketID (SetRawData blank_packet (reply_bytes 0xFF 0xFF)) = Inr (0, 65535)"
    by (simp add: GetRawPacketID_def r) (simp add: reply_bytes_def ntohs_bytes_def)
  have len: "length (reply_bytes 0xFF 0xFF) = 19" by (simp add: reply_bytes_def)
  show ?thesis
    by (simp add: ServerThreadOutbox_HandlePacket_def g hd Let_def OutboxRemove_def
          Server_new_def len SERVER_MAX_PACKET_SIZE_def USHRT_MAX_def)
qed

lemma OutboxTimeout_loop_keeps_young:
  "OutboxTimeout_loop rightNow q arr n = Inr (q', arr', n') \<Longrightarrow> arr i = Some r \<Longrightarrow>
   elapsed_ms rightNow (mForwardedTime r) < SERVER_TIMEOUT_MS \<Longrightarrow> arr' i = Some r"
proof (induction q arbitrary: arr n)
  case Nil
  then show ?case by simp
next
  case (Cons a q)
  show ?case
  proof (cases "arr (unat a)")
    case None
    with Cons.prems have "OutboxTimeout_loop rightNow q arr n = Inr (q', arr', n')"
      by (simp split: if_splits)
    then show ?thesis using Cons.prems(2,3) by (rule Cons.IH)
  next
    case (Some old)
    show ?thesis
    proof (cases "elapsed_ms rightNow (mForwardedTime old) < SERVER_TIMEOUT_MS")
      case True
      with Cons.prems Some show ?thesis by (simp split: if_splits)
    next
      case False
      with Cons.prems Some
      have l: "OutboxTimeout_loop rightNow q (arr(unat a := None)) (n + 1) = Inr (q', arr', n')"
        by (simp split: if_splits)
      from False Some Cons.prems(2,3) have "i \<noteq> unat a" by auto
      with Cons.prems(2) have "(arr(unat a := None)) i = Some r" by simp
      with l show ?thesis using Cons.prems(3) by (rule Cons.IH)
    qed
  qed
qed

lemma OutboxTimeout_loop_returns:
  "\<forall>a\<in>set q. unat a < USHRT_MAX \<Longrightarrow> \<exists>res. OutboxTimeout_loop rightNow q arr n = Inr res"
  by (induction q arbitrary: arr n) (auto split: option.splits)

lemma elapsed_ms_less: "elapsed_ms a b < SERVER_TIMEOUT_MS \<longleftrightarrow> a - b < SERVER_TIMEOUT_MS * 1000000"
  using elapsed_ms_ge [of a b] by (auto simp: SERVER_TIMEOUT_MS_def)

text \<open>C7: a Request in the outbox array that is younger than \<open>SERVER_TIMEOUT_MS\<close>
  when \<open>OutboxTimeout\<close> runs is still in its slot afterwards; and the sweep does return
  when every id in the queue has a slot.\<close>

theorem sweep_keeps_young:
  assumes "mOutboxArray s i = Some r"
    and "rightNow - mForwardedTime r < SERVER_TIMEOUT_MS * 1000000"
  shows "(\<forall>s'. OutboxTimeout rightNow s = Inr ((), s') \<longrightarrow> mOutboxArray s' i = Some r)
       \<and> ((\<forall>a\<in>set (mOutboxQueue s). unat a < USHRT_MAX)
            \<longrightarrow> (\<exists>s'. OutboxTimeout rightNow s = Inr ((), s')))"
proof -
  have y: "elapsed_ms rightNow (mForwardedTime r) < SERVER_TIMEOUT_MS"
    using assms(2) by (simp add: elapsed_ms_less)
  have 1: "mOutboxArray s' i = Some r" if "OutboxTimeout rightNow s = Inr ((), s')" for s'
  proof -
    from that obtain q' arr' n' where
      l: "OutboxTimeout_loop rightNow (mOutboxQueue s) (mOutboxArray s) (mStatsTimeOuts s) = Inr (q', arr', n')"
      and s': "s' = s\<lparr>mOutboxQueue := q', mOutboxArray := arr', mStatsTimeOuts := n'\<rparr>"
      by (auto simp: OutboxTimeout_def split: sum.splits)
    from l assms(1) y have "arr' i = Some r" by (rule OutboxTimeout_loop_keeps_young)
    then show ?thesis by (simp add: s')
  qed
  have 2: "\<exists>s'. OutboxTimeout rightNow s = Inr ((), s')"
    if "\<forall>a\<in>set (mOutboxQueue s). unat a < USHRT_MAX"
    using OutboxTimeout_loop_returns [OF that, of rightNow "mOutboxArray s" "mStatsTimeOuts s"]
    by (auto simp: OutboxTimeout_def)
  from 1 2 show ?thesis by blast
qed

text \<open>A sweep 1.5 s after the one pending Request was forwarded.\<close>

theorem sweep_keeps_young_witness:
  "OutboxTimeout 1500000000 pending_server = Inr ((), pending_server)
   \<and> mOutboxArray pending_server 1 = Some pending_request"
proof -
  have a: "mOutboxArray pending_server 1 = Some pending_request"
    by (simp add: pending_server_def)
  have b: "1500000000 - mForwardedTime pending_request < SERVER_TIMEOUT_MS * 1000000"
    by (simp add: pending_request_def SERVER_TIMEOUT_MS_def)
  have c: "OutboxTimeout 1500000000 pending_server = Inr ((), pending_server)"
    by (simp add: OutboxTimeout_def pending_server_def pending_request_def USHRT_MAX_def
          elapsed_ms_def SERVER_TIMEOUT_MS_def)
  from sweep_keeps_young [OF a b] c a show ?thesis by simp
qed

lemma table_upd: "(\<lambda>j. (arr(unat (i::16 word) := None)) (unat j)) = (\<lambda>j. arr (unat j))(i := None)"
  by (rule ext) (auto simp: word_unat_eq_iff)

lemma OutboxTimeout_loop_refines:
  assumes "\<forall>a\<in>set q. unat a < USHRT_MAX"
  shows "\<exists>arr'. OutboxTimeout_loop rightNow q arr n
             = Inr (snd (snd (sweep_reference rightNow SERVER_TIMEOUT_MS (\<lambda>j. arr (unat j)) q)),
                    arr',
                    n + of_nat (fst (sweep_reference rightNow SERVER_TIMEOUT_MS (\<lambda>j. arr (unat j)) q)))
           \<and> (\<forall>j. arr' (unat j) = fst (snd (sweep_reference rightNow SERVER_TIMEOUT_MS (\<lambda>j. arr (unat j)) q)) j)"
  using assms
proof (induction q arbitrary: arr n)
  case Nil
  then show ?case by simp
next
  case (Cons a q)
  then have b: "unat a < USHRT_MAX" and rest: "\<forall>a\<in>set q. unat a < USHRT_MAX" by simp_all
  show ?case
  proof (cases "arr (unat a)")
    case None
    with Cons.IH [OF rest, of arr n] b show ?thesis by simp
  next
    case (Some old)
    show ?thesis
    proof (cases "elapsed_ms rightNow (mForwardedTime old) < SERVER_TIMEOUT_MS")
      case True
      then have "\<not> rightNow - mForwardedTime old \<ge> SERVER_TIMEOUT_MS * 1000000"
        by (simp add: elapsed_ms_less)
      with True Some b show ?thesis by auto
    next
      case False
      then have e: "rightNow - mForwardedTime old \<ge> SERVER_TIMEOUT_MS * 1000000"
        by (simp add: elapsed_ms_less)
      note ih = Cons.IH [OF rest, of "arr(unat a := None)" "n + 1", unfolded table_upd]
      then obtain arr' where
        l: "OutboxTimeout_loop rightNow q (arr(unat a := None)) (n + 1)
             = Inr (snd (snd (sweep_reference rightNow SERVER_TIMEOUT_MS ((\<lambda>j. arr (unat j))(a := None)) q)),
                    arr',
                    n + 1 + of_nat (fst (sweep_reference rightNow SERVER_TIMEOUT_MS ((\<lambda>j. arr (unat j))(a := None)) q)))"
        and t: "\<forall>j. arr' (unat j) = fst (snd (sweep_reference rightNow SERVER_TIMEOUT_MS ((\<lambda>j. arr (unat j))(a := None)) q)) j"
        by blast
      from False Some b e l t show ?thesis
        by (simp add: split: prod.splits)
    qed
  qed
qed

text \<open>C6 (as amended): on an outbox whose queue holds only ids that have a slot,
  \<open>OutboxTimeout\<close> leaves the queue and the table that the reference sweep computes with
  the deadline \<open>SERVER_TIMEOUT_MS\<close>, adds the reference's count to \<open>mStatsTimeOuts\<close> and
  changes nothing else. It returns no value.\<close>

theorem sweep_refines_reference:
  assumes "\<forall>a\<in>set (mOutboxQueue s). unat a < USHRT_MAX"
  shows "\<exists>s'. OutboxTimeout rightNow s = Inr ((), s')
    \<and> (case sweep_reference rightNow SERVER_TIMEOUT_MS (\<lambda>j. mOutboxArray s (unat j)) (mOutboxQueue s) of
         (count, table', fifo') \<Rightarrow>
           mOutboxQueue s' = fifo'
           \<and> (\<forall>j. mOutboxArray s' (unat j) = table' j)
           \<and> mStatsTimeOuts s' = mStatsTimeOuts s + of_nat count
           \<and> s' = s\<lparr> mOutboxQueue := fifo', mOutboxArray := mOutboxArray s',
                       mStatsTimeOuts := mStatsTimeOuts s + of_nat count \<rparr>)"
proof -
  from OutboxTimeout_loop_refines [OF assms, of rightNow "mOutboxArray s" "mStatsTimeOuts s"]
  obtain arr' where
    l: "OutboxTimeout_loop rightNow (mOutboxQueue s) (mOutboxArray s) (mStatsTimeOuts s)
         = Inr (snd (snd (sweep_reference rightNow SERVER_TIMEOUT_MS (\<lambda>j. mOutboxArray s (unat j)) (mOutboxQueue s))),
                arr',
                mStatsTimeOuts s + of_nat (fst (sweep_reference rightNow SERVER_TIMEOUT_MS (\<lambda>j. mOutboxArray s (unat j)) (mOutboxQueue s))))"
    and t: "\<forall>j. arr' (unat j) = fst (snd (sweep_reference rightNow SERVER_TIMEOUT_MS (\<lambda>j. mOutboxArray s (unat j)) (mOutboxQueue s))) j"
    by blast
  show ?thesis
    using t by (simp add: OutboxTimeout_def l split: prod.splits)
qed

lemma OutboxTimeout_pending:
  "OutboxTimeout 3000000000 pending_server
     = Inr ((), pending_server\<lparr>mOutboxQueue := [], mOutboxArray := (\<lambda>i. None), mStatsTimeOuts := 1\<rparr>)"
  by (simp add: OutboxTimeout_def pending_server_def pending_request_def USHRT_MAX_def
          elapsed_ms_def SERVER_TIMEOUT_MS_def)

text \<open>A sweep 3 s after the one pending Request was forwarded.\<close>

theorem sweep_refines_reference_witness:
  "OutboxTimeout 3000000000 pending_server
     = Inr ((), pending_server\<lparr>mOutboxQueue := [], mOutboxArray := (\<lambda>i. None), mStatsTimeOuts := 1\<rparr>)
   \<and> fst (sweep_reference 3000000000 SERVER_TIMEOUT_MS (\<lambda>j. mOutboxArray pending_server (unat j))
            (mOutboxQueue pending_server)) = 1"
proof -
  have a: "\<forall>a\<in>set (mOutboxQueue pending_server). unat a < USHRT_MAX"
    by (simp add: pending_server_def USHRT_MAX_def)
  have "mStatsTimeOuts pending_server = 0" by (simp add: pending_server_def)
  with sweep_refines_reference [OF a, of 3000000000] show ?thesis
    by (simp add: OutboxTimeout_pending split: prod.splits)
       (simp add: pending_server_def pending_request_def SERVER_TIMEOUT_MS_def)
qed

text \<open>C6 as stated fails in its last clause: \<open>OutboxTimeout\<close> is \<open>void\<close>. A sweep
  that observes one timeout and a sweep that observes none return the same value.\<close>

theorem sweep_returns_no_count:
  "map_sum id fst (OutboxTimeout 3000000000 pending_server) = Inr ()
   \<and> map_sum id fst (OutboxTimeout 3000000000 (Server_new resolver_addr)) = Inr ()
   \<and> fst (sweep_reference 3000000000 SERVER_TIMEOUT_MS (\<lambda>j. mOutboxArray pending_server (unat j))
            (mOutboxQueue pending_server)) = 1
   \<and> fst (sweep_reference 3000000000 SERVER_TIMEOUT_MS (\<lambda>j. mOutboxArray (Server_new resolver_addr) (unat j))
            (mOutboxQueue (Server_new resolver_addr))) = 0"
  by (simp add: OutboxTimeout_pending)
     (simp add: OutboxTimeout_def Server_new_def pending_server_def pending_request_def SERVER_TIMEOUT_MS_def)

text \<open>C3: an upstream reply (accepted size, from the resolver, a response) whose id
  names a pending Request forwarded \<open>SERVER_TIMEOUT_MS\<close> or longer ago: nothing is sent,
  \<open>mStatsTimeOuts\<close> grows by one, \<open>mStatsServed\<close> is unchanged, and the Request has left
  the outbox.\<close>

theorem passive_timeout:
  assumes len: "length inData \<le> SERVER_MAX_PACKET_SIZE"
    and src: "sin_addr inFrom = sin_addr (mFwdSocketAddr s) \<and> sin_port inFrom = sin_port (mFwdSocketAddr s)"
    and two: "2 \<le> length inData"
    and rsp: "resp (mHeader (snd (Decode (SetRawData packet inData))))"
    and slot: "unat (ntohs_bytes (inData ! 0) (inData ! 1)) < USHRT_MAX"
    and pend: "mOutboxArray s (unat (ntohs_bytes (inData ! 0) (inData ! 1))) = Some req"
    and late: "rightNow - mForwardedTime req \<ge> SERVER_TIMEOUT_MS * 1000000"
  shows "\<exists>s'. ServerThreadOutbox_HandlePacket packet inData inFrom rightNow sendOk s = Inr (0, [], s')
           \<and> mStatsTimeOuts s' = mStatsTimeOuts s + 1
           \<and> mStatsServed s' = mStatsServed s
           \<and> mOutboxArray s' = (mOutboxArray s)(unat (ntohs_bytes (inData ! 0) (inData ! 1)) := None)"
proof -
  have e: "elapsed_ms rightNow (mForwardedTime req) \<ge> SERVER_TIMEOUT_MS"
    using late by (simp add: SERVER_TIMEOUT_MS_def elapsed_ms_ge)
  have g: "GetRawPacketID (SetRawData packet inData) = Inr (0, ntohs_bytes (inData ! 0) (inData ! 1))"
    using two by (simp add: GetRawPacketID_def SetRawData_def)
  show ?thesis
    using len src rsp slot pend e
    by (simp add: ServerThreadOutbox_HandlePacket_def g OutboxRemove_def Let_def SERVER_VERBOSE_def)
qed

text \<open>The reply to the pending Request, 3 s after it was forwarded.\<close>

theorem passive_timeout_witness:
  "\<exists>s'. ServerThreadOutbox_HandlePacket blank_packet (reply_bytes 0 1) resolver_addr 3000000000 True
            pending_server = Inr (0, [], s')
      \<and> mStatsTimeOuts s' = mStatsTimeOuts pending_server + 1
      \<and> mStatsServed s' = mStatsServed pending_server
      \<and> mOutboxArray s' = (mOutboxArray pending_server)
            (unat (ntohs_bytes (reply_bytes 0 1 ! 0) (reply_bytes 0 1 ! 1)) := None)"
proof -
  have len: "length (reply_bytes 0 1) \<le> SERVER_MAX_PACKET_SIZE"
    by (simp add: reply_bytes_def SERVER_MAX_PACKET_SIZE_def)
  have src: "sin_addr resolver_addr = sin_addr (mFwdSocketAddr pending_server)
           \<and> sin_port resolver_addr = sin_port (mFwdSocketAddr pending_server)"
    by (simp add: pending_server_def)
  have two: "2 \<le> length (reply_bytes 0 1)" by (simp add: reply_bytes_def)
  have r: "mRawPacketData (SetRawData blank_packet (reply_bytes 0 1)) = Some (reply_bytes 0 1)"
    by (simp add: SetRawData_def)
  have rsp: "resp (mHeader (snd (Decode (SetRawData blank_packet (reply_bytes 0 1)))))"
    by (simp add: Decode_header [OF r]) (simp add: reply_bytes_def header_of_bytes_def)
  have i: "unat (ntohs_bytes (reply_bytes 0 1 ! 0) (reply_bytes 0 1 ! 1)) = 1"
    by (simp add: reply_bytes_def ntohs_bytes_def)
  have slot: "unat (ntohs_bytes (reply_bytes 0 1 ! 0) (reply_bytes 0 1 ! 1)) < USHRT_MAX"
    unfolding i by (simp add: USHRT_MAX_def)
  have pend: "mOutboxArray pending_server (unat (ntohs_bytes (reply_bytes 0 1 ! 0) (reply_bytes 0 1 ! 1)))
                = Some pending_request"
    unfolding i by (simp add: pending_server_def)
  have late: "3000000000 - mForwardedTime pending_request \<ge> SERVER_TIMEOUT_MS * 1000000"
    by (simp add: pending_request_def SERVER_TIMEOUT_MS_def)
  show ?thesis
    by (rule passive_timeout [OF len src two rsp slot pend late])
qed

text \<open>A queue of one Request, and the empty queue.\<close>

theorem InboxQueuePopFront_front_witness:
  "InboxQueuePopFront ((Server_new resolver_addr)\<lparr>mInboxQueue := [Some queued_request]\<rparr>)
     = Inr (Some queued_request, Server_new resolver_addr)
   \<and> InboxQueuePopFront (Server_new resolver_addr) = Inl FrontOfEmptyQueue"
  using InboxQueuePopFront_front [of "(Server_new resolver_addr)\<lparr>mInboxQueue := [Some queued_request]\<rparr>" queued_request "[]"]
    InboxQueuePopFront_front [of "Server_new resolver_addr" queued_request "[]"]
  by (simp add: Server_new_def)

text \<open>The same datagram, and the call of \<open>OutboxRemove\<close> it leads to.\<close>

theorem id_65535_out_of_bounds_witness:
  "OutboxRemove 65535 ((Server_new resolver_addr)\<lparr>mStatsPacketsIn := 1\<rparr>) = Inl (ArrayIndexOutOfBounds 65535)
   \<and> ServerThreadOutbox_HandlePacket blank_packet (reply_bytes 0xFF 0xFF) resolver_addr 50000000 True
       (Server_new resolver_addr) = Inl (ArrayIndexOutOfBounds 65535)"
  using id_65535_out_of_bounds by (simp add: OutboxRemove_def USHRT_MAX_def)

text \<open>C9: \<open>EncodeAddrStr\<close> does not move \<open>ioData\<close> past a section it copied, so the
  next length byte and the final zero land on the section's first bytes. For the name
  \<open>ab\<close> it leaves the four bytes \<open>02 00 62 00\<close>, which \<open>DecodeAddrStr\<close> reads as a
  zero byte followed by \<open>b\<close>.\<close>

theorem encode_decode_loses_name:
  "EncodeAddrStr \<lparr>buf = replicate 16 0, ioData = 0, ioDataLen = 0, ioRemainsLen = 16\<rparr> ''ab''
     = Inr (0, \<lparr>buf = [2, 0, 98] @ replicate 13 0, ioData = 2, ioDataLen = 4, ioRemainsLen = 12\<rparr>)
   \<and> DecodeAddrStr (take 4 ([2, 0, 98] @ replicate 13 0)) []
     = (0, [], [CHR 0x00, CHR ''b''])
   \<and> [CHR 0x00, CHR ''b''] \<noteq> ''ab''"
proof -
  have f: "string_find ''ab'' CHR ''.'' 0 = None"
    by (simp add: string_find_def)
  have r: "replicate 16 (0::byte) = [0,0,0,0,0,0,0,0,0,0,0,0,0,0,0,0]"
    by (simp add: numeral_eq_Suc)
  have r13: "replicate 13 (0::byte) = [0,0,0,0,0,0,0,0,0,0,0,0,0]"
    by (simp add: numeral_eq_Suc)
  have 1: "EncodeAddrStr \<lparr>buf = replicate 16 0, ioData = 0, ioDataLen = 0, ioRemainsLen = 16\<rparr> ''ab''
     = Inr (0, \<lparr>buf = [2, 0, 98] @ replicate 13 0, ioData = 2, ioDataLen = 4, ioRemainsLen = 12\<rparr>)"
    unfolding r r13
    by (simp add: EncodeAddrStr_def EncodeAddrStr_loop.simps f encode_section_def memcpy_to_def
          byte_of_char_def Let_def)
  have 2: "DecodeAddrStr (take 4 ([2, 0, 98] @ replicate 13 0)) [] = (0, [], [CHR 0x00, CHR ''b''])"
    by (simp add: DecodeAddrStr_def DecodeAddrStr_loop.simps Let_def char_of_byte_def char_of_def
          bit_Suc_0_iff)
  from 1 2 show ?thesis by simp
qed

subsection \<open>Statistics\<close>

lemma outbox_size_card:
  "outbox_size s = card {i. i < USHRT_MAX \<and> mOutboxArray s i \<noteq> None}"
proof -
  have "distinct (filter (\<lambda>i. mOutboxArray s i \<noteq> None) [0..<USHRT_MAX])" by simp
  then have "length (filter (\<lambda>i. mOutboxArray s i \<noteq> None) [0..<USHRT_MAX])
             = card (set (filter (\<lambda>i. mOutboxArray s i \<noteq> None) [0..<USHRT_MAX]))"
    by (rule distinct_card [symmetric])
  also have "set (filter (\<lambda>i. mOutboxArray s i \<noteq> None) [0..<USHRT_MAX])
             = {i. i < USHRT_MAX \<and> mOutboxArray s i \<noteq> None}"
    by auto
  finally show ?thesis by (simp add: outbox_size_def)
qed

lemma outbox_size_add_free:
  assumes "i < USHRT_MAX" and "mOutboxArray s i = None" and "mOutboxArray s' = (mOutboxArray s)(i := Some r)"
  shows "outbox_size s' = outbox_size s + 1"
proof -
  have "{j. j < USHRT_MAX \<and> mOutboxArray s' j \<noteq> None}
        = insert i {j. j < USHRT_MAX \<and> mOutboxArray s j \<noteq> None}"
    using assms by auto
  moreover have "i \<notin> {j. j < USHRT_MAX \<and> mOutboxArray s j \<noteq> None}"
    using assms by simp
  moreover have "finite {j. j < USHRT_MAX \<and> mOutboxArray s j \<noteq> None}" by simp
  ultimately show ?thesis by (simp add: outbox_size_card)
qed

lemma outbox_size_add_occupied:
  assumes "i < USHRT_MAX" and "mOutboxArray s i \<noteq> None" and "mOutboxArray s' = (mOutboxArray s)(i := Some r)"
  shows "outbox_size s' = outbox_size s"
proof -
  have "{j. j < USHRT_MAX \<and> mOutboxArray s' j \<noteq> None}
        = {j. j < USHRT_MAX \<and> mOutboxArray s j \<noteq> None}"
    using assms by auto
  then show ?thesis by (simp add: outbox_size_card)
qed

lemma outbox_size_remove:
  assumes "i < USHRT_MAX" and "mOutboxArray s i \<noteq> None" and "mOutboxArray s' = (mOutboxArray s)(i := None)"
  shows "outbox_size s = outbox_size s' + 1"
proof -
  have "mOutboxArray s = (mOutboxArray s')(i := Some (the (mOutboxArray s i)))"
    using assms by auto
  moreover have "mOutboxArray s' i = None" using assms by simp
  ultimately show ?thesis using assms(1) by (intro outbox_size_add_free) auto
qed

lemma outbox_size_same:
  "mOutboxArray s' = mOutboxArray s \<Longrightarrow> outbox_size s' = outbox_size s"
  by (simp add: outbox_size_def)

lemma OutboxTimeout_loop_balance:
  "OutboxTimeout_loop rightNow q arr n = Inr (q', arr', n') \<Longrightarrow>
   n' + of_nat (outbox_size (s\<lparr>mOutboxArray := arr'\<rparr>)) = n + of_nat (outbox_size (s\<lparr>mOutboxArray := arr\<rparr>))
   \<and> length q' \<le> length q"
proof (induction q arbitrary: arr n)
  case Nil
  then show ?case by simp
next
  case (Cons a q)
  from Cons.prems have b: "unat a < USHRT_MAX" by (simp split: if_splits)
  show ?case
  proof (cases "arr (unat a)")
    case None
    with Cons.prems b have "OutboxTimeout_loop rightNow q arr n = Inr (q', arr', n')" by simp
    from Cons.IH [OF this] show ?thesis by simp
  next
    case (Some old)
    show ?thesis
    proof (cases "elapsed_ms rightNow (mForwardedTime old) < SERVER_TIMEOUT_MS")
      case True
      with Cons.prems Some b show ?thesis by simp
    next
      case False
      with Cons.prems Some b
      have "OutboxTimeout_loop rightNow q (arr(unat a := None)) (n + 1) = Inr (q', arr', n')" by simp
      from Cons.IH [OF this]
      have ih: "n' + of_nat (outbox_size (s\<lparr>mOutboxArray := arr'\<rparr>))
                = n + 1 + of_nat (outbox_size (s\<lparr>mOutboxArray := arr(unat a := None)\<rparr>))"
        and le: "length q' \<le> length q" by blast+
      have "outbox_size (s\<lparr>mOutboxArray := arr\<rparr>)
             = outbox_size (s\<lparr>mOutboxArray := arr(unat a := None)\<rparr>) + 1"
        using b Some by (intro outbox_size_remove [where i = "unat a"]) simp_all
      with ih le show ?thesis by simp
    qed
  qed
qed

lemma step_Maintenance_balance:
  assumes "step (Maintenance now) s = Inr (out, s')"
  shows "processing s' - of_nat (outbox_size s') = processing s - of_nat (outbox_size s)
       \<and> length (mOutboxQueue s') \<le> length (mOutboxQueue s)"
proof -
  from assms obtain q' arr' n' where
    l: "OutboxTimeout_loop now (mOutboxQueue s) (mOutboxArray s) (mStatsTimeOuts s) = Inr (q', arr', n')"
    and s': "s' = s\<lparr>mOutboxQueue := q', mOutboxArray := arr', mStatsTimeOuts := n'\<rparr>"
    by (auto simp: ServerThreadMaintainence_ThreadMain_def OutboxTimeout_def split: sum.splits)
  from OutboxTimeout_loop_balance [OF l, of s]
  have e: "n' + of_nat (outbox_size (s\<lparr>mOutboxArray := arr'\<rparr>)) = mStatsTimeOuts s + of_nat (outbox_size s)"
    and le: "length q' \<le> length (mOutboxQueue s)" by simp_all
  have sz: "outbox_size s' = outbox_size (s\<lparr>mOutboxArray := arr'\<rparr>)"
    by (rule outbox_size_same) (simp add: s')
  have "processing s' - of_nat (outbox_size s')
        = mStatsRequests s - mStatsServed s - (n' + of_nat (outbox_size (s\<lparr>mOutboxArray := arr'\<rparr>)))"
    unfolding sz by (simp add: processing_def s')
  also have "\<dots> = processing s - of_nat (outbox_size s)"
    unfolding e by (simp add: processing_def)
  finally show ?thesis using le by (simp add: s')
qed

lemma step_Upstream_balance:
  assumes "step (UpstreamDatagram packet datagram a now ok) s = Inr (out, s')"
  shows "processing s' - of_nat (outbox_size s') = processing s - of_nat (outbox_size s)
       \<and> mOutboxQueue s' = mOutboxQueue s"
proof -
  define d where "d = take SERVER_BUFFER_SIZE datagram"
  from assms obtain rc where
    h: "ServerThreadOutbox_HandlePacket packet d a now ok s = Inr (rc, out, s')"
    by (auto simp: ServerThreadOutbox_ThreadMain_def d_def split: sum.splits)
  let ?i = "unat (ntohs_bytes (d ! 0) (d ! 1))"
  from HandlePacket_cases [OF h] show ?thesis
  proof
    assume "s' = s \<and> out = []"
    then show ?thesis by simp
  next
    assume c: "2 \<le> length d \<and> ?i < USHRT_MAX \<and>
      (case mOutboxArray s ?i of
         None \<Rightarrow> s' = s\<lparr>mStatsPacketsIn := mStatsPacketsIn s + 1\<rparr> \<and> out = []
       | Some req \<Rightarrow>
           if elapsed_ms now (mForwardedTime req) \<ge> SERVER_TIMEOUT_MS
           then s' = s\<lparr> mStatsPacketsIn := mStatsPacketsIn s + 1,
                         mOutboxArray := (mOutboxArray s)(?i := None),
                         mStatsTimeOuts := mStatsTimeOuts s + 1 \<rparr> \<and> out = []
           else s' = s\<lparr> mStatsPacketsIn := mStatsPacketsIn s + 1,
                         mOutboxArray := (mOutboxArray s)(?i := None),
                         mStatsServed := mStatsServed s + 1,
                         mStatsPacketsOut := mStatsPacketsOut s + 1 \<rparr>
                \<and> out = (if ok then [SendTo ServerSocket (mClientAddr req)
                                         (htons_bytes (mClientPacketID req) @ drop 2 d)]
                          else []))"
    then have b: "?i < USHRT_MAX" by blast
    show ?thesis
    proof (cases "mOutboxArray s ?i")
      case None
      with c have "s' = s\<lparr>mStatsPacketsIn := mStatsPacketsIn s + 1\<rparr>" by simp
      then show ?thesis by (simp add: processing_def outbox_size_def)
    next
      case (Some req)
      with c have arr: "mOutboxArray s' = (mOutboxArray s)(?i := None)"
        and q: "mOutboxQueue s' = mOutboxQueue s"
        and st: "mStatsRequests s' = mStatsRequests s
               \<and> mStatsServed s' + mStatsTimeOuts s' = mStatsServed s + mStatsTimeOuts s + 1"
        by (auto split: if_splits)
      have "outbox_size s = outbox_size s' + 1"
        using b Some arr by (intro outbox_size_remove [where i = ?i]) simp_all
      with st q show ?thesis by (simp add: processing_def)
    qed
  qed
qed

lemma step_Client_balance:
  assumes "step (ClientDatagram packet datagram a) s = Inr (out, s')"
  shows "processing s' = processing s \<and> mOutboxArray s' = mOutboxArray s
       \<and> mOutboxQueue s' = mOutboxQueue s"
  using assms
  by (auto simp: ServerThreadInbox_ThreadMain_def ServerThreadInbox_HandlePacket_def
        InboxQueuePushBack_def processing_def Let_def split: if_splits)

lemma step_Process_cases:
  assumes h: "step (ProcessNext now ok) s = Inr (out, s')"
  shows "\<exists>s1. processing s1 = processing s \<and> mOutboxArray s1 = mOutboxArray s
            \<and> mOutboxQueue s1 = mOutboxQueue s
            \<and> (s' = s1 \<or>
                (\<exists>req. s' = s1\<lparr> mStatsRequests := mStatsRequests s1 + 1,
                                 mGenIDCounter := fst (GenerateUniqueID s1),
                                 mOutboxQueue := mOutboxQueue s1 @ [fst (GenerateUniqueID s1)],
                                 mOutboxArray := (mOutboxArray s1)(unat (fst (GenerateUniqueID s1)) := Some req),
                                 mOutboxSemaphore := mOutboxSemaphore s1 + 1,
                                 mStatsPacketsOut := mStatsPacketsOut s1 + 1 \<rparr>))"
proof (cases "mInboxQueueSemaphore s = 0")
  case True
  with h have "s' = s" by (simp add: ServerThreadProcess_ThreadMain_def)
  then show ?thesis by blast
next
  case False
  let ?s0 = "s\<lparr>mInboxQueueSemaphore := mInboxQueueSemaphore s - 1\<rparr>"
  from h False obtain r s1 where p: "InboxQueuePopFront ?s0 = Inr (r, s1)"
    by (auto simp: ServerThreadProcess_ThreadMain_def split: sum.splits)
  then have k: "processing s1 = processing s \<and> mOutboxArray s1 = mOutboxArray s
            \<and> mOutboxQueue s1 = mOutboxQueue s"
    by (auto simp: InboxQueuePopFront_def processing_def split: list.splits option.splits)
  show ?thesis
  proof (cases r)
    case None
    with h False p have "s' = s1" by (simp add: ServerThreadProcess_ThreadMain_def)
    with k show ?thesis by blast
  next
    case (Some req)
    with h False p obtain rc where
      hr: "ServerThreadProcess_HandleRequest req now ok s1 = Inr (rc, out, s')"
      by (auto simp: ServerThreadProcess_ThreadMain_def split: sum.splits)
    from HandleRequest_cases [OF hr] k show ?thesis by blast
  qed
qed

lemma step_Process_balance:
  assumes h: "step (ProcessNext now ok) s = Inr (out, s')"
  shows "processing s' - of_nat (outbox_size s')
         = processing s - of_nat (outbox_size s) + (if evicts (ProcessNext now ok) s then 1 else 0)"
proof -
  from step_Process_cases [OF h] obtain s1 where
    p: "processing s1 = processing s" and a: "mOutboxArray s1 = mOutboxArray s"
    and q: "mOutboxQueue s1 = mOutboxQueue s"
    and c: "s' = s1 \<or>
                (\<exists>req. s' = s1\<lparr> mStatsRequests := mStatsRequests s1 + 1,
                                 mGenIDCounter := fst (GenerateUniqueID s1),
                                 mOutboxQueue := mOutboxQueue s1 @ [fst (GenerateUniqueID s1)],
                                 mOutboxArray := (mOutboxArray s1)(unat (fst (GenerateUniqueID s1)) := Some req),
                                 mOutboxSemaphore := mOutboxSemaphore s1 + 1,
                                 mStatsPacketsOut := mStatsPacketsOut s1 + 1 \<rparr>)"
    by blast
  have sz: "outbox_size s1 = outbox_size s" using a by (rule outbox_size_same)
  from c show ?thesis
  proof
    assume e: "s' = s1"
    then have "\<not> evicts (ProcessNext now ok) s"
      using h q by (simp add: evicts_def)
    then show ?thesis using e p sz by simp
  next
    let ?id = "fst (GenerateUniqueID s1)"
    assume "\<exists>req. s' = s1\<lparr> mStatsRequests := mStatsRequests s1 + 1,
                                 mGenIDCounter := ?id,
                                 mOutboxQueue := mOutboxQueue s1 @ [?id],
                                 mOutboxArray := (mOutboxArray s1)(unat ?id := Some req),
                                 mOutboxSemaphore := mOutboxSemaphore s1 + 1,
                                 mStatsPacketsOut := mStatsPacketsOut s1 + 1 \<rparr>"
    then obtain req where s': "s' = s1\<lparr> mStatsRequests := mStatsRequests s1 + 1,
                                 mGenIDCounter := ?id,
                                 mOutboxQueue := mOutboxQueue s1 @ [?id],
                                 mOutboxArray := (mOutboxArray s1)(unat ?id := Some req),
                                 mOutboxSemaphore := mOutboxSemaphore s1 + 1,
                                 mStatsPacketsOut := mStatsPacketsOut s1 + 1 \<rparr>"
      by blast
    have b: "unat ?id < USHRT_MAX" by (rule GenerateUniqueID_in_bounds)
    have arr: "mOutboxArray s' = (mOutboxArray s1)(unat ?id := Some req)" by (simp add: s')
    have "processing s' = processing s1 + 1"
      by (simp add: s' processing_def)
    with p have pr: "processing s' = processing s + 1" by simp
    have ev: "evicts (ProcessNext now ok) s \<longleftrightarrow> mOutboxArray s1 (unat ?id) \<noteq> None"
      using h q a by (simp add: evicts_def s')
    show ?thesis
    proof (cases "mOutboxArray s1 (unat ?id)")
      case None
      from b None arr have "outbox_size s' = outbox_size s1 + 1" by (rule outbox_size_add_free)
      with None ev pr sz show ?thesis by simp
    next
      case (Some old)
      then have "mOutboxArray s1 (unat ?id) \<noteq> None" by simp
      with b have "outbox_size s' = outbox_size s1" using arr by (rule outbox_size_add_occupied)
      with Some ev pr sz show ?thesis by simp
    qed
  qed
qed

lemma step_balance:
  assumes h: "step e s = Inr (out, s')"
  shows "processing s' - of_nat (outbox_size s')
         = processing s - of_nat (outbox_size s) + (if evicts e s then 1 else 0)"
proof (cases e)
  case (ClientDatagram packet datagram a)
  with step_Client_balance [of packet datagram a s out s'] h
  have k: "processing s' = processing s \<and> mOutboxArray s' = mOutboxArray s
       \<and> mOutboxQueue s' = mOutboxQueue s" by simp
  then have "outbox_size s' = outbox_size s" by (intro outbox_size_same) simp
  moreover have "\<not> evicts e s" using h k by (simp add: evicts_def)
  ultimately show ?thesis using k by simp
next
  case (ProcessNext now ok)
  from h [unfolded ProcessNext] show ?thesis
    unfolding ProcessNext by (rule step_Process_balance)
next
  case (UpstreamDatagram packet datagram a now ok)
  with step_Upstream_balance [of packet datagram a now ok s out s'] h
  have k: "processing s' - of_nat (outbox_size s') = processing s - of_nat (outbox_size s)
       \<and> mOutboxQueue s' = mOutboxQueue s" by simp
  moreover have "\<not> evicts e s" using h k by (simp add: evicts_def)
  ultimately show ?thesis by simp
next
  case (Maintenance now)
  with step_Maintenance_balance [of now s out s'] h
  have k: "processing s' - of_nat (outbox_size s') = processing s - of_nat (outbox_size s)
       \<and> length (mOutboxQueue s') \<le> length (mOutboxQueue s)" by simp
  moreover have "\<not> evicts e s" using h k by (simp add: evicts_def)
  ultimately show ?thesis by simp
qed

lemma run_balance:
  "run evs s = Inr (outs, s') \<Longrightarrow>
   processing s' - of_nat (outbox_size s')
     = processing s - of_nat (outbox_size s) + of_nat (evictions evs s)"
proof (induction evs arbitrary: s outs)
  case Nil
  then show ?case by simp
next
  case (Cons e evs)
  from Cons.prems obtain out s1 outs1 where
    st: "step e s = Inr (out, s1)" and r: "run evs s1 = Inr (outs1, s')"
    by (auto split: sum.splits)
  from step_balance [OF st] Cons.IH [OF r] st show ?case
    by simp
qed

text \<open>C8 (as amended): after any run from a state with balanced statistics, at the
  quiescent point the run ends in, \<open>mStatsRequests\<close> equals \<open>mStatsServed\<close> plus
  \<open>mStatsTimeOuts\<close> plus the number of Requests in the outbox array plus the number of
  Requests that \<open>OutboxAdd\<close> evicted by re-using the id of a live slot; so the statistics
  are balanced after every run in which no id was re-used while live.\<close>

theorem stats_balance_up_to_evictions:
  assumes "stats_balanced s0" and "run evs s0 = Inr (outs, s)"
  shows "mStatsRequests s = mStatsServed s + mStatsTimeOuts s + of_nat (outbox_size s)
                             + of_nat (evictions evs s0)
       \<and> (evictions evs s0 = 0 \<longrightarrow> stats_balanced s)"
proof -
  from assms(1) have "processing s0 - of_nat (outbox_size s0) = 0"
    by (simp add: stats_balanced_def processing_def)
  with run_balance [OF assms(2)]
  have "processing s - of_nat (outbox_size s) = of_nat (evictions evs s0)" by simp
  then have "mStatsRequests s = mStatsServed s + mStatsTimeOuts s + of_nat (outbox_size s)
                             + of_nat (evictions evs s0)"
    by (simp add: processing_def algebra_simps)
  then show ?thesis by (simp add: stats_balanced_def)
qed

lemma HandleRequest_ok:
  assumes d: "Decode (mPacket inReq) = (0, pkt)" and nr: "\<not> resp (mHeader pkt)"
  shows "\<exists>rc out s'. ServerThreadProcess_HandleRequest inReq now ok s = Inr (rc, out, s')
          \<and> mStatsRequests s' = mStatsRequests s + 1
          \<and> mStatsServed s' = mStatsServed s
          \<and> mStatsTimeOuts s' = mStatsTimeOuts s
          \<and> mGenIDCounter s' = fst (GenerateUniqueID s)
          \<and> mInboxQueue s' = mInboxQueue s
          \<and> mInboxQueueSemaphore s' = mInboxQueueSemaphore s
          \<and> (\<forall>i. i \<noteq> unat (fst (GenerateUniqueID s)) \<longrightarrow> mOutboxArray s' i = mOutboxArray s i)"
proof -
  from d obtain query where q: "mRawPacketData (mPacket inReq) = Some query"
    and l: "12 \<le> length query"
    using Decode_ok_length by blast
  have pq: "mRawPacketData pkt = Some query"
    using Decode_raw [of "mPacket inReq"] d q by simp
  have l2: "2 \<le> length query" using l by simp
  have b: "unat (fst (GenerateUniqueID s)) < USHRT_MAX"
    by (rule GenerateUniqueID_in_bounds)
  have g: "GenerateUniqueID (s\<lparr>mStatsRequests := mStatsRequests s + 1\<rparr>)
               = (fst (GenerateUniqueID s),
                  s\<lparr>mStatsRequests := mStatsRequests s + 1, mGenIDCounter := fst (GenerateUniqueID s)\<rparr>)"
    by (simp add: GenerateUniqueID_def Let_def)
  show ?thesis
    using d nr pq l2 b
    by (simp add: ServerThreadProcess_HandleRequest_def GetRawPacketID_def SetRawPacketID_def
            memcpy_id OutboxAdd_def Let_def g)
qed

lemma Decode_queued:
  "Decode (mPacket queued_request)
     = (0, \<lparr> mRawPacketData = Some query_bytes,
                   mHeader = header_of_bytes (take 12 query_bytes),
                   mQuestionName = ''a'',
                   mQuestion = \<lparr>qtype = 1, qclass = 1\<rparr> \<rparr>)"
  by (simp add: queued_request_def Decode_query)

lemma round_run:
  assumes "mInboxQueue s = []" and "mInboxQueueSemaphore s = 0"
  shows "\<exists>outs s'. run [ClientDatagram blank_packet query_bytes client_addr, ProcessNext 0 True] s
                      = Inr (outs, s')
          \<and> mInboxQueue s' = [] \<and> mInboxQueueSemaphore s' = 0
          \<and> mStatsRequests s' = mStatsRequests s + 1
          \<and> mStatsServed s' = mStatsServed s
          \<and> mStatsTimeOuts s' = mStatsTimeOuts s
          \<and> mGenIDCounter s' = fst (GenerateUniqueID s)
          \<and> (\<forall>i. i \<noteq> unat (fst (GenerateUniqueID s)) \<longrightarrow> mOutboxArray s' i = mOutboxArray s i)"
proof -
  let ?s1 = "s\<lparr> mStatsPacketsIn := mStatsPacketsIn s + 1, mInboxQueueSemaphore := 0,
                 mInboxQueue := [] \<rparr>"
  have nr: "\<not> resp (mHeader \<lparr> mRawPacketData = Some query_bytes,
                   mHeader = header_of_bytes (take 12 query_bytes),
                   mQuestionName = ''a'',
                   mQuestion = \<lparr>qtype = 1, qclass = 1\<rparr> \<rparr>)"
    by (simp add: header_of_bytes_def query_bytes_def)
  from HandleRequest_ok [OF Decode_queued nr, of 0 True ?s1]
  obtain rc out s' where
    h: "ServerThreadProcess_HandleRequest queued_request 0 True ?s1 = Inr (rc, out, s')"
    and k: "mStatsRequests s' = mStatsRequests ?s1 + 1
          \<and> mStatsServed s' = mStatsServed ?s1
          \<and> mStatsTimeOuts s' = mStatsTimeOuts ?s1
          \<and> mGenIDCounter s' = fst (GenerateUniqueID ?s1)
          \<and> mInboxQueue s' = mInboxQueue ?s1
          \<and> mInboxQueueSemaphore s' = mInboxQueueSemaphore ?s1
          \<and> (\<forall>i. i \<noteq> unat (fst (GenerateUniqueID ?s1)) \<longrightarrow> mOutboxArray s' i = mOutboxArray ?s1 i)"
    by blast
  have id: "fst (GenerateUniqueID ?s1) = fst (GenerateUniqueID s)"
    by (simp add: GenerateUniqueID_def Let_def)
  have len: "length query_bytes = 19" and ne: "query_bytes \<noteq> []"
    by (simp_all add: query_bytes_def)
  have r: "run [ClientDatagram blank_packet query_bytes client_addr, ProcessNext 0 True] s
            = Inr (out, s')"
    using assms h
    by (simp add: ServerThreadInbox_ThreadMain_def ServerThreadInbox_HandlePacket_def
          InboxQueuePushBack_def ServerThreadProcess_ThreadMain_def InboxQueuePopFront_def
          SERVER_BUFFER_SIZE_def SERVER_MAX_PACKET_SIZE_def len ne queued_request_def [symmetric])
  from k show ?thesis unfolding id r by simp
qed

lemma run_append:
  "run (xs @ ys) s =
     (case run xs s of
        Inl f \<Rightarrow> Inl f
      | Inr (o1, s1) \<Rightarrow>
          (case run ys s1 of Inl f \<Rightarrow> Inl f | Inr (o2, s2) \<Rightarrow> Inr (o1 @ o2, s2)))"
  by (induction xs arbitrary: s) (auto split: sum.splits)

lemma rounds_run:
  assumes "mInboxQueue s = []" and "mInboxQueueSemaphore s = 0"
    and "mGenIDCounter s \<noteq> 65535" and "mOutboxArray s 0 = None"
  shows "\<exists>outs s'. run (concat (replicate n [ClientDatagram blank_packet query_bytes client_addr,
                                              ProcessNext 0 True])) s = Inr (outs, s')
          \<and> mInboxQueue s' = [] \<and> mInboxQueueSemaphore s' = 0
          \<and> mGenIDCounter s' \<noteq> 65535 \<and> mOutboxArray s' 0 = None
          \<and> mStatsRequests s' = mStatsRequests s + of_nat n
          \<and> mStatsServed s' = mStatsServed s
          \<and> mStatsTimeOuts s' = mStatsTimeOuts s"
  using assms
proof (induction n arbitrary: s)
  case 0
  then show ?case by simp
next
  case (Suc n)
  let ?round = "[ClientDatagram blank_packet query_bytes client_addr, ProcessNext 0 True]"
  from round_run [OF Suc.prems(1,2)] obtain o1 s1 where
    r1: "run ?round s = Inr (o1, s1)"
    and q1: "mInboxQueue s1 = []" and m1: "mInboxQueueSemaphore s1 = 0"
    and rq: "mStatsRequests s1 = mStatsRequests s + 1"
    and sv: "mStatsServed s1 = mStatsServed s"
    and tm: "mStatsTimeOuts s1 = mStatsTimeOuts s"
    and c1: "mGenIDCounter s1 = fst (GenerateUniqueID s)"
    and a1: "\<forall>i. i \<noteq> unat (fst (GenerateUniqueID s)) \<longrightarrow> mOutboxArray s1 i = mOutboxArray s i"
    by blast
  have v: "unat (fst (GenerateUniqueID s)) = unat (mGenIDCounter s) mod 65534 + 1"
    using Suc.prems(3) by (rule GenerateUniqueID_value)
  have "unat (fst (GenerateUniqueID s)) < 65535"
    using GenerateUniqueID_in_bounds [of s] by (simp add: USHRT_MAX_def)
  then have n1: "mGenIDCounter s1 \<noteq> 65535"
    unfolding c1 by (rule unat_less_ne)
  from v have "0 \<noteq> unat (fst (GenerateUniqueID s))" by simp
  with a1 Suc.prems(4) have z1: "mOutboxArray s1 0 = None" by simp
  from Suc.IH [OF q1 m1 n1 z1] obtain o2 s2 where
    r2: "run (concat (replicate n ?round)) s1 = Inr (o2, s2)"
    and k: "mInboxQueue s2 = [] \<and> mInboxQueueSemaphore s2 = 0
          \<and> mGenIDCounter s2 \<noteq> 65535 \<and> mOutboxArray s2 0 = None
          \<and> mStatsRequests s2 = mStatsRequests s1 + of_nat n
          \<and> mStatsServed s2 = mStatsServed s1
          \<and> mStatsTimeOuts s2 = mStatsTimeOuts s1"
    by blast
  have "concat (replicate (Suc n) ?round) = ?round @ concat (replicate n ?round)" by simp
  then have "run (concat (replicate (Suc n) ?round)) s = Inr (o1 @ o2, s2)"
    by (simp only: run_append r1 r2 sum.case prod.case)
  with k rq sv tm show ?case by simp
qed

lemma outbox_size_slot0:
  assumes "mOutboxArray s 0 = None"
  shows "outbox_size s \<le> 65534"
proof -
  have "{i. i < USHRT_MAX \<and> mOutboxArray s i \<noteq> None} \<subseteq> {1..<65535}"
  proof
    fix i assume "i \<in> {i. i < USHRT_MAX \<and> mOutboxArray s i \<noteq> None}"
    then have "i < 65535" and "mOutboxArray s i \<noteq> None" by (simp_all add: USHRT_MAX_def)
    with assms have "i \<noteq> 0" by (cases i) auto
    with \<open>i < 65535\<close> show "i \<in> {1..<65535}" by simp
  qed
  then have "card {i. i < USHRT_MAX \<and> mOutboxArray s i \<noteq> None} \<le> card {1..<65535::nat}"
    by (intro card_mono) simp_all
  then show ?thesis by (simp add: outbox_size_card)
qed

text \<open>C8 as stated fails: 65535 well-formed queries, none answered and no sweep in
  between. The 65535th gets id 1 again and replaces the first Request, which no counter
  records: 65535 requests, nothing served or timed out, at most 65534 Requests stored.\<close>

theorem eviction_unbalances_stats:
  "map_sum id (\<lambda>r. stats_balanced (snd r))
     (run (concat (replicate 65535 [ClientDatagram blank_packet query_bytes client_addr,
                                    ProcessNext 0 True]))
          (Server_new resolver_addr))
   = Inr False"
proof -
  have i: "mInboxQueue (Server_new resolver_addr) = []"
    "mInboxQueueSemaphore (Server_new resolver_addr) = 0"
    "mGenIDCounter (Server_new resolver_addr) \<noteq> 65535"
    "mOutboxArray (Server_new resolver_addr) 0 = None"
    by (simp_all add: Server_new_def)
  from rounds_run [OF i, of 65535] obtain outs s' where
    r: "run (concat (replicate 65535 [ClientDatagram blank_packet query_bytes client_addr,
                                    ProcessNext 0 True])) (Server_new resolver_addr) = Inr (outs, s')"
    and z: "mOutboxArray s' 0 = None"
    and rq: "mStatsRequests s' = mStatsRequests (Server_new resolver_addr) + of_nat 65535"
    and sv: "mStatsServed s' = mStatsServed (Server_new resolver_addr)"
    and tm: "mStatsTimeOuts s' = mStatsTimeOuts (Server_new resolver_addr)"
    by blast
  have le: "outbox_size s' \<le> 65534" using z by (rule outbox_size_slot0)
  have "\<not> stats_balanced s'"
  proof
    assume "stats_balanced s'"
    then have "(65535 :: 32 word) = of_nat (outbox_size s')"
      using rq sv tm by (simp add: stats_balanced_def Server_new_def)
    then have "unat (65535 :: 32 word) = unat (of_nat (outbox_size s') :: 32 word)" by simp
    then have "65535 = outbox_size s' mod 4294967296" by (simp add: unat_of_nat)
    with le show False by simp
  qed
  then show ?thesis by (simp add: r)
qed

lemma stats_balanced_new: "stats_balanced (Server_new fwd)"
  by (simp add: stats_balanced_def outbox_size_def Server_new_def)

text \<open>One query received and forwarded on the new server.\<close>

theorem stats_balance_up_to_evictions_witness:
  "stats_balanced (Server_new resolver_addr)
   \<and> run [ClientDatagram blank_packet query_bytes client_addr, ProcessNext 0 True] (Server_new resolver_addr)
       = Inr ([SendTo FwdSocket resolver_addr ([0, 1] @ drop 2 query_bytes)], pending_server)
   \<and> mStatsRequests pending_server
       = mStatsServed pending_server + mStatsTimeOuts pending_server
         + of_nat (outbox_size pending_server)
         + of_nat (evictions [ClientDatagram blank_packet query_bytes client_addr, ProcessNext 0 True]
                     (Server_new resolver_addr))"
  using stats_balance_up_to_evictions [OF stats_balanced_new run_pending] stats_balanced_new run_pending
  by blast

subsection \<open>Reachable states\<close>

text \<open>Every id in \<open>mOutboxQueue\<close> was issued by \<open>GenerateUniqueID\<close>, so in every
  state a run reaches from the new server each queued id has a slot in the array: the
  sweep does not leave the array in such a state.\<close>

lemma OutboxTimeout_loop_subset:
  "OutboxTimeout_loop rightNow q arr n = Inr (q', arr', n') \<Longrightarrow> set q' \<subseteq> set q"
proof (induction q arbitrary: arr n)
  case Nil
  then show ?case by simp
next
  case (Cons a q)
  show ?case
  proof (cases "arr (unat a)")
    case None
    with Cons.prems have "OutboxTimeout_loop rightNow q arr n = Inr (q', arr', n')"
      by (simp split: if_splits)
    from Cons.IH [OF this] show ?thesis by auto
  next
    case (Some old)
    show ?thesis
    proof (cases "elapsed_ms rightNow (mForwardedTime old) < SERVER_TIMEOUT_MS")
      case True
      with Cons.prems Some show ?thesis by (auto split: if_splits)
    next
      case False
      with Cons.prems Some
      have "OutboxTimeout_loop rightNow q (arr(unat a := None)) (n + 1) = Inr (q', arr', n')"
        by (simp split: if_splits)
      from Cons.IH [OF this] show ?thesis by auto
    qed
  qed
qed

lemma step_queue_in_bounds:
  assumes h: "step e s = Inr (out, s')"
    and b: "\<forall>a\<in>set (mOutboxQueue s). unat a < USHRT_MAX"
  shows "\<forall>a\<in>set (mOutboxQueue s'). unat a < USHRT_MAX"
proof (cases e)
  case (ClientDatagram packet datagram a)
  from step_Client_balance [OF h [unfolded ClientDatagram]] b show ?thesis by simp
next
  case (ProcessNext now ok)
  from step_Process_cases [OF h [unfolded ProcessNext]] obtain s1 where
    q: "mOutboxQueue s1 = mOutboxQueue s"
    and c: "s' = s1 \<or> mOutboxQueue s' = mOutboxQueue s1 @ [fst (GenerateUniqueID s1)]"
    by auto
  from c show ?thesis
  proof
    assume "s' = s1"
    with q b show ?thesis by simp
  next
    assume "mOutboxQueue s' = mOutboxQueue s1 @ [fst (GenerateUniqueID s1)]"
    with q b GenerateUniqueID_in_bounds [of s1] show ?thesis by simp
  qed
next
  case (UpstreamDatagram packet datagram a now ok)
  from step_Upstream_balance [OF h [unfolded UpstreamDatagram]] b show ?thesis by simp
next
  case (Maintenance now)
  from h obtain q' arr' n' where
    l: "OutboxTimeout_loop now (mOutboxQueue s) (mOutboxArray s) (mStatsTimeOuts s) = Inr (q', arr', n')"
    and s': "s' = s\<lparr>mOutboxQueue := q', mOutboxArray := arr', mStatsTimeOuts := n'\<rparr>"
    by (auto simp: Maintenance ServerThreadMaintainence_ThreadMain_def OutboxTimeout_def split: sum.splits)
  from OutboxTimeout_loop_subset [OF l] b show ?thesis by (auto simp: s')
qed

lemma run_queue_in_bounds:
  "run evs s = Inr (outs, s') \<Longrightarrow> \<forall>a\<in>set (mOutboxQueue s). unat a < USHRT_MAX \<Longrightarrow>
   \<forall>a\<in>set (mOutboxQueue s'). unat a < USHRT_MAX"
proof (induction evs arbitrary: s outs)
  case Nil
  then show ?case by simp
next
  case (Cons e evs)
  from Cons.prems(1) obtain out s1 outs1 where
    st: "step e s = Inr (out, s1)" and r: "run evs s1 = Inr (outs1, s')"
    by (auto split: sum.splits)
  from step_queue_in_bounds [OF st Cons.prems(2)] have "\<forall>a\<in>set (mOutboxQueue s1). unat a < USHRT_MAX" .
  with r show ?case by (rule Cons.IH)
qed

lemma reachable_queue_in_bounds:
  "run evs (Server_new fwd) = Inr (outs, s) \<Longrightarrow> \<forall>a\<in>set (mOutboxQueue s). unat a < USHRT_MAX"
  by (erule run_queue_in_bounds) (simp add: Server_new_def)

end
